(* ===== verification/Prelude.thy ===== *)
theory Prelude
  imports Main "HOL-Library.Word" "HOL-Library.Char_ord" "HOL-Library.List_Lexorder"
begin

text \<open>
  Shared vocabulary of the development: Python's \<open>bytes\<close> and \<open>str\<close>, the exception
  classes that the modelled code raises or catches, UTF-8 on the modelled code-point range,
  Python's whitespace classification and \<open>str.strip\<close>, and the generic list lemmas the
  codec proofs share.

  A Python \<open>str\<close> is a sequence of code points; the model represents it as an Isabelle
  \<open>string\<close>, whose characters are read as the code points U+0000..U+00FF (Latin-1).
  A Python \<open>bytes\<close> value is a list of \<open>8 word\<close>.
\<close>

named_theorems codec_simps "evaluation rules of the byte and text codecs"
named_theorems exc_simps "classification of the modelled exception classes"

type_synonym byte = "8 word"
type_synonym bytes = "byte list"
type_synonym pystr = string

section \<open>Exceptions\<close>

text \<open>
  The exception classes that can be raised on the modelled paths.  Subclass relations of
  Python are the predicates below: \<open>binascii.Error\<close>, \<open>UnicodeDecodeError\<close> and
  \<open>json.JSONDecodeError\<close> and pydantic's \<open>ValidationError\<close> are \<open>ValueError\<close>s;
  \<open>JWTClaimsError\<close> and \<open>ExpiredSignatureError\<close> are \<open>JWTError\<close>s.  The database errors
  are SQLAlchemy's (\<open>IntegrityError\<close>, \<open>DataError\<close>, \<open>MultipleResultsFound\<close>,
  \<open>ProgrammingError\<close> for a missing table); \<open>RuntimeError\<close> is contextlib's answer to a
  generator that does not follow the protocol of a context manager.
  \<open>HTTPException\<close> carries the status code, the detail and the headers.
\<close>

datatype exc =
    ValueError
  | BinasciiError
  | UnicodeDecodeError
  | JSONDecodeError
  | TypeError
  | AttributeError
  | OverflowError
  | RecursionError
  | JWSError
  | JWKError
  | JWTError
  | JWTClaimsError
  | ExpiredSignatureError
  | ValidationError
  | IntegrityError
  | DataError
  | MultipleResultsFound
  | ProgrammingError
  | RuntimeError
  | HTTPException nat pystr "(pystr \<times> pystr) list"

fun is_value_error :: "exc \<Rightarrow> bool" where
  "is_value_error ValueError = True"
| "is_value_error BinasciiError = True"
| "is_value_error UnicodeDecodeError = True"
| "is_value_error JSONDecodeError = True"
| "is_value_error ValidationError = True"
| "is_value_error _ = False"

fun is_jwt_error :: "exc \<Rightarrow> bool" where
  "is_jwt_error JWTError = True"
| "is_jwt_error JWTClaimsError = True"
| "is_jwt_error ExpiredSignatureError = True"
| "is_jwt_error _ = False"

declare is_value_error.simps [exc_simps] is_jwt_error.simps [exc_simps]

text \<open>Sequencing of a statement that may raise before the code that follows it.\<close>

fun ok_then :: "exc + unit \<Rightarrow> exc + 'a \<Rightarrow> exc + 'a" where
  "ok_then (Inl e) r = Inl e"
| "ok_then (Inr _) r = r"

section \<open>Characters and bytes\<close>

definition byte_of_char :: "char \<Rightarrow> byte" where
  "byte_of_char c = of_nat (of_char c)"

definition char_of_byte :: "byte \<Rightarrow> char" where
  "char_of_byte b = char_of (unat b)"

text \<open>Python's \<open>str.encode('ascii')\<close> of a literal, for the ASCII constants of the code.\<close>

definition ascii :: "pystr \<Rightarrow> bytes" where
  "ascii s = map byte_of_char s"

section \<open>UTF-8 on the modelled code points\<close>

text \<open>
  \<open>str.encode('utf-8')\<close>: one byte below U+0080, two bytes \<open>110xxxxx 10xxxxxx\<close> above.
  \<open>bytes.decode('utf-8')\<close> is the inverse; a byte string that is not UTF-8 raises
  \<open>UnicodeDecodeError\<close>, modelled as \<open>None\<close>.  A well-formed sequence of a code point
  above U+00FF lies outside the modelled range and is also \<open>None\<close>.
\<close>

fun utf8_char :: "char \<Rightarrow> bytes" where
  "utf8_char c =
     (let n = of_char c :: nat in
      if n < 128 then [of_nat n] else [of_nat (192 + n div 64), of_nat (128 + n mod 64)])"

definition utf8_encode :: "pystr \<Rightarrow> bytes" where
  "utf8_encode s = concat (map utf8_char s)"

fun utf8_decode :: "bytes \<Rightarrow> pystr option" where
  "utf8_decode [] = Some []"
| "utf8_decode (b # bs) =
     (if unat b < 128 then map_option (Cons (char_of_byte b)) (utf8_decode bs)
      else if unat b = 194 \<or> unat b = 195 then
        (case bs of
           [] \<Rightarrow> None
         | b2 # bs' \<Rightarrow>
             if 128 \<le> unat b2 \<and> unat b2 < 192
             then map_option (Cons (char_of ((unat b - 192) * 64 + (unat b2 - 128)))) (utf8_decode bs')
             else None)
      else None)"

section \<open>Whitespace and strip\<close>

text \<open>
  \<open>str.isspace\<close> on the modelled range: TAB, LF, VT, FF, CR, the separators
  U+001C..U+001F, SPACE, NEL (U+0085) and NO-BREAK SPACE (U+00A0).
  \<open>str.strip()\<close> removes such characters at both ends.
\<close>

definition py_isspace :: "char \<Rightarrow> bool" where
  "py_isspace c \<longleftrightarrow> of_char c \<in> ({9, 10, 11, 12, 13, 28, 29, 30, 31, 32, 133, 160} :: nat set)"

definition py_strip :: "pystr \<Rightarrow> pystr" where
  "py_strip s = rev (dropWhile py_isspace (rev (dropWhile py_isspace s)))"

text \<open>\<open>str.split(sep)\<close> with a one-character separator.\<close>

fun split_on :: "char \<Rightarrow> pystr \<Rightarrow> pystr list" where
  "split_on c [] = [[]]"
| "split_on c (x # xs) =
     (if x = c then [] # split_on c xs
      else (case split_on c xs of y # ys \<Rightarrow> (x # y) # ys | [] \<Rightarrow> [[x]]))"

text \<open>\<open>sep.join(xs)\<close>.\<close>

fun str_join :: "pystr \<Rightarrow> pystr list \<Rightarrow> pystr" where
  "str_join sep [] = []"
| "str_join sep [x] = x"
| "str_join sep (x # y # ys) = x @ sep @ str_join sep (y # ys)"

section \<open>Properties\<close>

subsection \<open>Characters and bytes\<close>

lemma byte_of_char_of_byte [simp]: "byte_of_char (char_of_byte b) = b"
proof -
  have "unat b < 256" using unsigned_less [of b] by simp
  then show ?thesis by (simp add: byte_of_char_def char_of_byte_def)
qed

lemma char_of_byte_of_char [simp]: "char_of_byte (byte_of_char c) = c"
  by (simp add: byte_of_char_def char_of_byte_def unat_of_nat)

lemma unat_byte_of_char [simp]: "unat (byte_of_char c) = of_char c"
  by (simp add: byte_of_char_def unat_of_nat)

lemma byte_of_char_inj [simp]: "byte_of_char c = byte_of_char d \<longleftrightarrow> c = d"
  by (metis char_of_byte_of_char)

lemma char_of_byte_inj: "char_of_byte a = char_of_byte b \<Longrightarrow> a = b"
  by (metis byte_of_char_of_byte)

lemma ascii_simps [simp, codec_simps]:
  "ascii [] = []" "ascii (c # s) = byte_of_char c # ascii s" "ascii (s @ t) = ascii s @ ascii t"
  by (simp_all add: ascii_def)

subsection \<open>UTF-8 on the modelled code points\<close>

lemma utf8_encode_simps [simp, codec_simps]:
  "utf8_encode [] = []" "utf8_encode (c # s) = utf8_char c @ utf8_encode s"
  "utf8_encode (s @ t) = utf8_encode s @ utf8_encode t"
  by (simp_all add: utf8_encode_def)

lemma utf8_decode_char_append: "utf8_decode (utf8_char c @ bs) = map_option (Cons c) (utf8_decode bs)"
proof -
  define n where "n = (of_char c :: nat)"
  have n: "n < 256" by (simp add: n_def)
  have c: "c = char_of n" by (simp add: n_def)
  show ?thesis
  proof (cases "n < 128")
    case True
    then show ?thesis
      by (simp add: n_def [symmetric] Let_def char_of_byte_def unat_of_nat c)
  next
    case False
    have d: "n div 64 < 4" using n by simp
    have e: "utf8_char c = [of_nat (192 + n div 64), of_nat (128 + n mod 64)]"
      using False by (simp add: n_def [symmetric] Let_def)
    have u1: "unat (of_nat (192 + n div 64) :: byte) = 192 + n div 64"
      using d by (simp del: of_nat_add add: unat_of_nat)
    have u2: "unat (of_nat (128 + n mod 64) :: byte) = 128 + n mod 64"
      by (simp del: of_nat_add add: unat_of_nat)
    have hi: "192 + n div 64 = 194 \<or> 192 + n div 64 = 195" using False n by linarith
    have rec: "(192 + n div 64 - 192) * 64 + (128 + n mod 64 - 128) = n" by simp
    show ?thesis
      unfolding e using hi by (simp del: of_nat_add add: u1 u2 rec c)
  qed
qed

lemma utf8_roundtrip [simp]: "utf8_decode (utf8_encode s) = Some s"
  by (induction s) (simp_all del: utf8_char.simps add: utf8_decode_char_append)

lemma utf8_ascii: "(\<forall>c \<in> set s. of_char c < (128::nat)) \<Longrightarrow> utf8_encode s = ascii s"
  by (induction s) (simp_all add: Let_def byte_of_char_def)

subsection \<open>Whitespace and strip\<close>

lemma py_strip_empty_iff: "py_strip s = [] \<longleftrightarrow> (\<forall>c \<in> set s. py_isspace c)"
proof (cases "dropWhile py_isspace s")
  case Nil
  then show ?thesis by (auto simp: py_strip_def dest: set_dropWhileD)
next
  case (Cons c cs)
  then have "\<not> py_isspace c" using hd_dropWhile [of py_isspace s] by fastforce
  moreover have "c \<in> set s" using Cons set_dropWhileD [of c py_isspace s] by simp
  ultimately show ?thesis using Cons by (auto simp add: py_strip_def)
qed

lemma dropWhile_append_all: "(\<forall>c \<in> set a. P c) \<Longrightarrow> dropWhile P (a @ s) = dropWhile P s"
  by (induction a) auto

lemma dropWhile_all: "(\<forall>c \<in> set xs. P c) \<Longrightarrow> dropWhile P xs = []"
  by (induction xs) auto

lemma py_strip_pad:
  assumes a: "\<forall>c \<in> set a. py_isspace c" and b: "\<forall>c \<in> set b. py_isspace c"
  shows "py_strip (a @ s @ b) = py_strip s"
proof (cases "dropWhile py_isspace s = []")
  case True
  then have "\<forall>c \<in> set (s @ b). py_isspace c" using b by auto
  then show ?thesis using a True by (simp add: py_strip_def dropWhile_append_all dropWhile_all)
next
  case False
  then have "dropWhile py_isspace (a @ s @ b) = dropWhile py_isspace s @ b"
    using a by (auto simp add: dropWhile_append_all dropWhile_append)
  moreover have "\<forall>c \<in> set (rev b). py_isspace c" using b by simp
  ultimately show ?thesis
    by (simp add: py_strip_def dropWhile_append_all)
qed

lemma py_strip_id:
  assumes "s \<noteq> []" and "\<not> py_isspace (hd s)" and "\<not> py_isspace (last s)"
  shows "py_strip s = s"
proof -
  have "dropWhile py_isspace s = s" using assms(1,2) by (cases s) auto
  moreover have "dropWhile py_isspace (rev s) = rev s" using assms(1,3) by (cases "rev s") (auto simp: last_rev [symmetric])
  ultimately show ?thesis by (simp add: py_strip_def)
qed

subsection \<open>Sequencing\<close>

lemma ok_then_eq_Inr [simp]: "ok_then r x = Inr y \<longleftrightarrow> r = Inr () \<and> x = Inr y"
  by (cases r) auto

lemma ok_then_eq_Inl [simp]: "ok_then r x = Inl e \<longleftrightarrow> r = Inl e \<or> (r = Inr () \<and> x = Inl e)"
  by (cases r) auto

subsection \<open>Shared list lemmas\<close>

lemma map_option_Cons_eq_Some [simp]:
  "map_option (Cons x) r = Some ys \<longleftrightarrow> (\<exists>zs. r = Some zs \<and> ys = x # zs)"
  by (cases r) auto

end
