(* ===== verification/Base64.thy ===== *)
theory Base64
  imports Prelude
begin

text \<open>
  The base64url codec through which every segment of a token passes.  The repository calls
  \<open>jose.jwt.encode\<close>/\<open>decode\<close>; python-jose encodes a segment with
  \<open>base64url_encode\<close> (\<open>urlsafe_b64encode\<close>, then every \<open>=\<close> removed) and decodes
  it with \<open>base64url_decode\<close> (pad with \<open>=\<close> to a multiple of four, then
  \<open>urlsafe_b64decode\<close>).  Python's decoder is CPython's \<open>binascii.a2b_base64\<close> in its
  non-strict mode, modelled here as the character loop it is: characters outside the
  alphabet are skipped, a completed padding ends the input, and the bits of a final partial
  group are dropped.  The encoder is the group-of-three reference encoding.
\<close>

unbundle bit_operations_syntax

section \<open>The alphabet\<close>

definition pad_byte :: byte where
  "pad_byte = 61"

text \<open>\<open>table_b2a_base64\<close>: the character code of a six-bit value.\<close>

definition b64_code :: "nat \<Rightarrow> nat" where
  "b64_code n =
     (if n < 26 then 65 + n
      else if n < 52 then 71 + n
      else if n < 62 then n - 4
      else if n = 62 then 43 else 47)"

definition b64_char :: "byte \<Rightarrow> byte" where
  "b64_char v = of_nat (b64_code (unat v))"

text \<open>\<open>table_a2b_base64\<close>: the six-bit value of a character code, \<open>None\<close> outside the alphabet.\<close>

definition a2b_code :: "nat \<Rightarrow> nat option" where
  "a2b_code n =
     (if 65 \<le> n \<and> n \<le> 90 then Some (n - 65)
      else if 97 \<le> n \<and> n \<le> 122 then Some (n - 71)
      else if 48 \<le> n \<and> n \<le> 57 then Some (n + 4)
      else if n = 43 then Some 62
      else if n = 47 then Some 63
      else None)"

definition a2b_table :: "byte \<Rightarrow> byte option" where
  "a2b_table c = map_option of_nat (a2b_code (unat c))"

text \<open>The translations of \<open>urlsafe_b64encode\<close> and \<open>urlsafe_b64decode\<close>.\<close>

definition urlsafe_encode_translate :: "byte \<Rightarrow> byte" where
  "urlsafe_encode_translate c = (if c = 43 then 45 else if c = 47 then 95 else c)"

definition urlsafe_decode_translate :: "byte \<Rightarrow> byte" where
  "urlsafe_decode_translate c = (if c = 45 then 43 else if c = 95 then 47 else c)"

definition sextet :: "byte \<Rightarrow> byte" where
  "sextet x = x AND 63"

section \<open>Encoding\<close>

text \<open>
  \<open>binascii.b2a_base64(s, newline=False)\<close>: each group of three bytes gives four
  characters; a final group of one or two bytes gives two or three characters and is padded
  with \<open>=\<close> to four.
\<close>

fun b64_sextets :: "bytes \<Rightarrow> bytes" where
  "b64_sextets (b0 # b1 # b2 # bs) =
     [sextet (drop_bit 2 b0), sextet (push_bit 4 b0 OR drop_bit 4 b1),
      sextet (push_bit 2 b1 OR drop_bit 6 b2), sextet b2] @ b64_sextets bs"
| "b64_sextets [b0, b1] =
     [sextet (drop_bit 2 b0), sextet (push_bit 4 b0 OR drop_bit 4 b1), sextet (push_bit 2 b1)]"
| "b64_sextets [b0] = [sextet (drop_bit 2 b0), sextet (push_bit 4 b0)]"
| "b64_sextets [] = []"

definition b2a_base64 :: "bytes \<Rightarrow> bytes" where
  "b2a_base64 bs =
     map b64_char (b64_sextets bs) @ replicate ((3 - length bs mod 3) mod 3) pad_byte"

definition urlsafe_b64encode :: "bytes \<Rightarrow> bytes" where
  "urlsafe_b64encode bs = map urlsafe_encode_translate (b2a_base64 bs)"

text \<open>python-jose \<open>base64url_encode\<close>: \<open>urlsafe_b64encode(input).replace(b"=", b"")\<close>.\<close>

definition base64url_encode :: "bytes \<Rightarrow> bytes" where
  "base64url_encode bs = filter (\<lambda>c. c \<noteq> pad_byte) (urlsafe_b64encode bs)"

section \<open>Decoding: the non-strict \<open>a2b_base64\<close> loop\<close>

text \<open>
  The loop state of \<open>binascii_a2b_base64_impl\<close>: the position in the current quad, the
  bits carried to the next output byte, the number of pad characters seen, and the output.
\<close>

record a2b_state =
  quad_pos :: nat
  leftchar :: byte
  pads :: nat
  decoded :: bytes

definition a2b_init :: a2b_state where
  "a2b_init = \<lparr>quad_pos = 0, leftchar = 0, pads = 0, decoded = []\<rparr>"

text \<open>One data character of value \<open>v\<close> (the \<open>switch (quad_pos)\<close> of the C loop).\<close>

definition a2b_data :: "a2b_state \<Rightarrow> byte \<Rightarrow> a2b_state" where
  "a2b_data st v =
     (if quad_pos st = 0 then st\<lparr>quad_pos := 1, leftchar := v, pads := 0\<rparr>
      else if quad_pos st = 1 then
        st\<lparr>quad_pos := 2, leftchar := v AND 15, pads := 0,
           decoded := decoded st @ [push_bit 2 (leftchar st) OR drop_bit 4 v]\<rparr>
      else if quad_pos st = 2 then
        st\<lparr>quad_pos := 3, leftchar := v AND 3, pads := 0,
           decoded := decoded st @ [push_bit 4 (leftchar st) OR drop_bit 2 v]\<rparr>
      else
        st\<lparr>quad_pos := 0, leftchar := 0, pads := 0,
           decoded := decoded st @ [push_bit 6 (leftchar st) OR v]\<rparr>)"

text \<open>
  A pad character completes the data when at least two characters of the quad were seen and
  the pads fill it (\<open>quad_pos + ++pads >= 4\<close>, with \<open>++pads\<close> evaluated only when
  \<open>quad_pos >= 2\<close>); the rest of the input is then ignored.  Other pad characters and
  characters outside the alphabet are skipped.  At the end of the input an unfinished quad is
  \<open>binascii.Error\<close>.
\<close>

fun a2b_loop :: "a2b_state \<Rightarrow> bytes \<Rightarrow> exc + bytes" where
  "a2b_loop st [] = (if quad_pos st = 0 then Inr (decoded st) else Inl BinasciiError)"
| "a2b_loop st (c # cs) =
     (if c = pad_byte then
        (if 2 \<le> quad_pos st then
           (if 4 \<le> quad_pos st + Suc (pads st) then Inr (decoded st)
            else a2b_loop (st\<lparr>pads := Suc (pads st)\<rparr>) cs)
         else a2b_loop st cs)
      else (case a2b_table c of
              None \<Rightarrow> a2b_loop st cs
            | Some v \<Rightarrow> a2b_loop (a2b_data st v) cs))"

definition a2b_base64 :: "bytes \<Rightarrow> exc + bytes" where
  "a2b_base64 bs = a2b_loop a2b_init bs"

definition urlsafe_b64decode :: "bytes \<Rightarrow> exc + bytes" where
  "urlsafe_b64decode bs = a2b_base64 (map urlsafe_decode_translate bs)"

text \<open>python-jose \<open>base64url_decode\<close>: pad to a multiple of four, then decode.\<close>

definition base64url_decode :: "bytes \<Rightarrow> exc + bytes" where
  "base64url_decode bs =
     (let r = length bs mod 4
      in urlsafe_b64decode (if 0 < r then bs @ replicate (4 - r) pad_byte else bs))"

section \<open>Properties\<close>

subsection \<open>Byte-level helpers\<close>

lemma bit_index_cases:
  "(n::nat) < 8 \<Longrightarrow> n = 0 \<or> n = 1 \<or> n = 2 \<or> n = 3 \<or> n = 4 \<or> n = 5 \<or> n = 6 \<or> n = 7"
  by arith

lemma byte_bit_high: "8 \<le> n \<Longrightarrow> \<not> bit (w::byte) n"
  by (auto dest: bit_imp_le_length)

lemma byte_eqI: "(\<And>n. n < 8 \<Longrightarrow> bit (a::byte) n = bit b n) \<Longrightarrow> a = b"
  by (rule bit_word_eqI) simp

subsection \<open>Alphabet\<close>

lemma sextet_bound [simp]: "unat (sextet x) < 64"
proof -
  have "x AND 63 \<le> (63::byte)" by (rule word_and_le1)
  then have "unat (x AND 63) \<le> unat (63::byte)" by (simp add: word_le_nat_alt)
  then show ?thesis by (simp add: sextet_def)
qed

lemma b64_code_bound: "b64_code n < 256"
  by (simp add: b64_code_def) presburger

lemma unat_b64_char [simp]: "unat (b64_char v) = b64_code (unat v)"
  using b64_code_bound [of "unat v"] by (simp add: b64_char_def unat_of_nat)

lemma b64_char_not_pad [simp]: "b64_char v \<noteq> pad_byte"
  by (auto simp: word_unat_eq_iff b64_code_def pad_byte_def)

lemma a2b_code_b64_code: "n < 64 \<Longrightarrow> a2b_code (b64_code n) = Some n"
  by (simp add: a2b_code_def b64_code_def) presburger

lemma a2b_table_b64_char [simp]:
  assumes "unat v < 64"
  shows "a2b_table (b64_char v) = Some v"
  using assms by (simp add: a2b_table_def a2b_code_b64_code)

lemma urlsafe_translate_b64_char [simp]:
  "urlsafe_decode_translate (urlsafe_encode_translate (b64_char v)) = b64_char v"
proof -
  have "b64_char v \<noteq> 45 \<and> b64_char v \<noteq> 95"
    by (auto simp: word_unat_eq_iff b64_code_def)
  then show ?thesis
    by (simp add: urlsafe_encode_translate_def urlsafe_decode_translate_def)
qed

lemma urlsafe_encode_translate_not_pad [simp]:
  "urlsafe_encode_translate (b64_char v) \<noteq> pad_byte"
  using b64_char_not_pad [of v]
  by (auto simp: urlsafe_encode_translate_def pad_byte_def)

subsection \<open>Packing and unpacking six-bit groups\<close>

lemma b64_pack:
  "push_bit 2 (sextet (drop_bit 2 b0)) OR drop_bit 4 (sextet (push_bit 4 b0 OR drop_bit 4 b1)) = b0"
  "sextet (push_bit 4 b0 OR drop_bit 4 b1) AND 15 = drop_bit 4 b1"
  "push_bit 4 (drop_bit 4 b1) OR drop_bit 2 (sextet (push_bit 2 b1 OR drop_bit 6 b2)) = b1"
  "sextet (push_bit 2 b1 OR drop_bit 6 b2) AND 3 = drop_bit 6 b2"
  "push_bit 6 (drop_bit 6 b2) OR sextet b2 = b2"
  "drop_bit 4 (sextet (push_bit 4 b0)) = b0 AND 3"
  "push_bit 2 (sextet (drop_bit 2 b0)) OR (b0 AND 3) = b0"
  "drop_bit 2 (sextet (push_bit 2 b1)) = b1 AND 15"
  "push_bit 4 (drop_bit 4 b1) OR (b1 AND 15) = b1"
  by (rule byte_eqI, drule bit_index_cases, elim disjE,
      simp_all add: bit_simps sextet_def byte_bit_high)+

subsection \<open>Decoding encoded groups\<close>

lemma a2b_group:
  assumes "quad_pos st = 0"
  shows "a2b_loop st (map b64_char [sextet (drop_bit 2 b0), sextet (push_bit 4 b0 OR drop_bit 4 b1),
            sextet (push_bit 2 b1 OR drop_bit 6 b2), sextet b2] @ rest)
         = a2b_loop (st\<lparr>quad_pos := 0, leftchar := 0, pads := 0, decoded := decoded st @ [b0, b1, b2]\<rparr>) rest"
  using assms by (simp add: a2b_data_def b64_pack)

text \<open>
  A final group of two bytes: three characters and one pad.  The last character only has to
  agree with the canonical one in its upper four bits, \<open>drop_bit 2 t = b1 AND 15\<close>.
\<close>

lemma a2b_tail2:
  assumes "quad_pos st = 0" and "unat t < 64" and "drop_bit 2 t = b1 AND 15"
  shows "a2b_loop st (map b64_char [sextet (drop_bit 2 b0), sextet (push_bit 4 b0 OR drop_bit 4 b1), t]
            @ pad_byte # rest) = Inr (decoded st @ [b0, b1])"
  using assms by (simp add: a2b_data_def b64_pack)

text \<open>A final group of one byte: two characters and two pads; \<open>drop_bit 4 t = b0 AND 3\<close>.\<close>

lemma a2b_tail1:
  assumes "quad_pos st = 0" and "unat t < 64" and "drop_bit 4 t = b0 AND 3"
  shows "a2b_loop st (map b64_char [sextet (drop_bit 2 b0), t] @ pad_byte # pad_byte # rest)
         = Inr (decoded st @ [b0])"
  using assms by (simp add: a2b_data_def b64_pack)

lemma b2a_base64_Cons3:
  "b2a_base64 (b0 # b1 # b2 # bs) =
     map b64_char [sextet (drop_bit 2 b0), sextet (push_bit 4 b0 OR drop_bit 4 b1),
       sextet (push_bit 2 b1 OR drop_bit 6 b2), sextet b2] @ b2a_base64 bs"
  by (simp add: b2a_base64_def)

lemma a2b_b2a:
  "quad_pos st = 0 \<Longrightarrow> a2b_loop st (b2a_base64 bs) = Inr (decoded st @ bs)"
proof (induction bs arbitrary: st rule: b64_sextets.induct)
  case (1 b0 b1 b2 bs)
  then show ?case by (simp only: b2a_base64_Cons3 a2b_group) simp
next
  case (2 b0 b1)
  then show ?case
    using a2b_tail2 [of st "sextet (push_bit 2 b1)" b1 b0 "[]"]
    by (simp add: b2a_base64_def b64_pack)
next
  case (3 b0)
  then show ?case
    using a2b_tail1 [of st "sextet (push_bit 4 b0)" b0 "[]"]
    by (simp add: b2a_base64_def b64_pack numeral_2_eq_2)
next
  case 4
  then show ?case by (simp add: b2a_base64_def)
qed

lemma a2b_base64_b2a_base64: "a2b_base64 (b2a_base64 bs) = Inr bs"
  using a2b_b2a [of a2b_init bs] by (simp add: a2b_base64_def a2b_init_def)

subsection \<open>The jose wrappers\<close>

lemma base64url_encode_eq:
  "base64url_encode bs = map (urlsafe_encode_translate \<circ> b64_char) (b64_sextets bs)"
proof -
  have p: "urlsafe_encode_translate pad_byte = pad_byte"
    by (simp add: urlsafe_encode_translate_def pad_byte_def)
  have "filter (\<lambda>c. c \<noteq> pad_byte) (map (urlsafe_encode_translate \<circ> b64_char) (b64_sextets bs))
        = map (urlsafe_encode_translate \<circ> b64_char) (b64_sextets bs)"
    by (simp add: filter_id_conv)
  then show ?thesis
    by (simp add: base64url_encode_def urlsafe_b64encode_def b2a_base64_def p)
qed

lemma length_b64_sextets:
  "length (b64_sextets bs) = 4 * (length bs div 3) + (if length bs mod 3 = 0 then 0 else Suc (length bs mod 3))"
proof (induction bs rule: b64_sextets.induct)
  case (1 b0 b1 b2 bs)
  have "Suc (Suc (Suc (length bs))) div 3 = Suc (length bs div 3)"
    and "Suc (Suc (Suc (length bs))) mod 3 = length bs mod 3" by simp_all
  with 1 show ?case by simp
qed simp_all

lemma jose_pad_count:
  "(let r = length (b64_sextets bs) mod 4 in if 0 < r then 4 - r else 0) = (3 - length bs mod 3) mod 3"
proof -
  have "length bs mod 3 = 0 \<or> length bs mod 3 = 1 \<or> length bs mod 3 = 2" by arith
  then show ?thesis by (auto simp: length_b64_sextets Let_def)
qed

lemma base64url_roundtrip: "base64url_decode (base64url_encode bs) = Inr bs"
proof -
  define k where "k = (3 - length bs mod 3) mod 3"
  have dp: "urlsafe_decode_translate pad_byte = pad_byte"
    by (simp add: urlsafe_decode_translate_def pad_byte_def)
  have "base64url_decode (base64url_encode bs)
        = urlsafe_b64decode (map (urlsafe_encode_translate \<circ> b64_char) (b64_sextets bs) @ replicate k pad_byte)"
    using jose_pad_count [of bs]
    by (simp add: base64url_decode_def base64url_encode_eq Let_def k_def split: if_splits)
  also have "\<dots> = a2b_base64 (b2a_base64 bs)"
    by (simp add: urlsafe_b64decode_def b2a_base64_def k_def dp comp_def)
  finally show ?thesis by (simp add: a2b_base64_b2a_base64)
qed

subsection \<open>Encodings that decode alike\<close>

text \<open>
  \<open>urlsafe_b64decode\<close> translates \<open>-\<close> to \<open>+\<close> and keeps \<open>+\<close>: both characters
  denote the value 62.
\<close>

lemma base64url_decode_minus_plus:
  "base64url_decode (xs @ 45 # ys) = base64url_decode (xs @ 43 # ys)"
  by (simp add: base64url_decode_def urlsafe_b64decode_def urlsafe_decode_translate_def Let_def)

lemma length_two_cases: "length ys = 2 \<Longrightarrow> \<exists>a b. ys = [a, b]"
  by (cases ys; cases "tl ys") auto

lemma b64_sextets_append:
  "length xs mod 3 = 0 \<Longrightarrow> b64_sextets (xs @ ys) = b64_sextets xs @ b64_sextets ys"
  by (induction xs rule: b64_sextets.induct) simp_all

lemma a2b_groups:
  "quad_pos st = 0 \<Longrightarrow> length xs mod 3 = 0 \<Longrightarrow>
   \<exists>st'. quad_pos st' = 0 \<and> decoded st' = decoded st @ xs \<and>
         a2b_loop st (map b64_char (b64_sextets xs) @ rest) = a2b_loop st' rest"
proof (induction xs arbitrary: st rule: b64_sextets.induct)
  case (1 b0 b1 b2 bs)
  let ?st = "st\<lparr>quad_pos := 0, leftchar := 0, pads := 0, decoded := decoded st @ [b0, b1, b2]\<rparr>"
  have "length bs mod 3 = 0" using "1.prems"(2) by simp
  then obtain st' where "quad_pos st' = 0" "decoded st' = decoded ?st @ bs"
    "a2b_loop ?st (map b64_char (b64_sextets bs) @ rest) = a2b_loop st' rest"
    using "1.IH" [of ?st] by auto
  moreover have "a2b_loop st (map b64_char (b64_sextets (b0 # b1 # b2 # bs)) @ rest)
      = a2b_loop ?st (map b64_char (b64_sextets bs) @ rest)"
    using "1.prems"(1) by (simp only: b64_sextets.simps map_append append_assoc a2b_group)
  ultimately show ?case by auto
qed auto

text \<open>
  When the input length is \<open>2 mod 3\<close> (a 32-byte HMAC-SHA256 tag is), the low two bits of
  the last character of the encoding are never read: setting the lowest one gives a different
  character string that decodes to the same bytes.
\<close>

lemma base64url_last_char_variant:
  assumes "length bs mod 3 = 2"
  shows "base64url_decode (butlast (base64url_encode bs) @
           [urlsafe_encode_translate (b64_char (last (b64_sextets bs) OR 1))]) = Inr bs"
proof -
  have two: "2 \<le> length bs"
  proof (rule ccontr)
    assume "\<not> 2 \<le> length bs"
    then have "length bs < 2" by simp
    with assms show False by simp
  qed
  define xs where "xs = take (length bs - 2) bs"
  have "length (drop (length bs - 2) bs) = 2" using two by simp
  then obtain b0 b1 where d: "drop (length bs - 2) bs = [b0, b1]"
    using length_two_cases by blast
  have bs: "bs = xs @ [b0, b1]" using d by (metis append_take_drop_id xs_def)
  have xs: "length xs mod 3 = 0" using assms two by (simp add: xs_def) presburger
  let ?t = "sextet (push_bit 2 b1) OR 1"
  have sx: "b64_sextets bs = b64_sextets xs @
      [sextet (drop_bit 2 b0), sextet (push_bit 4 b0 OR drop_bit 4 b1), sextet (push_bit 2 b1)]"
    using xs by (simp add: bs b64_sextets_append)
  have t64: "unat ?t < 64"
  proof -
    have "?t = sextet ?t"
      by (rule byte_eqI, drule bit_index_cases, elim disjE, simp_all add: bit_simps sextet_def)
    then show ?thesis by (metis sextet_bound)
  qed
  have tdrop: "drop_bit 2 ?t = b1 AND 15"
    by (rule byte_eqI, drule bit_index_cases, elim disjE, simp_all add: bit_simps sextet_def byte_bit_high)
  have len: "length (butlast (base64url_encode bs) @ [urlsafe_encode_translate (b64_char ?t)]) mod 4 = 3"
    using length_b64_sextets [of bs] assms sx by (simp add: base64url_encode_eq)
  have dp: "urlsafe_decode_translate pad_byte = pad_byte"
    by (simp add: urlsafe_decode_translate_def pad_byte_def)
  have input: "map urlsafe_decode_translate
      (butlast (base64url_encode bs) @ [urlsafe_encode_translate (b64_char ?t)] @ [pad_byte])
      = map b64_char (b64_sextets xs) @ map b64_char [sextet (drop_bit 2 b0),
          sextet (push_bit 4 b0 OR drop_bit 4 b1), ?t] @ pad_byte # []"
    by (simp add: base64url_encode_eq sx butlast_append dp)
  let ?tl = "map b64_char [sextet (drop_bit 2 b0), sextet (push_bit 4 b0 OR drop_bit 4 b1), ?t]
              @ pad_byte # []"
  have q0: "quad_pos a2b_init = 0" by (simp add: a2b_init_def)
  obtain st' where st'1: "quad_pos st' = 0" and st'2: "decoded st' = decoded a2b_init @ xs"
    and st'3: "a2b_loop a2b_init (map b64_char (b64_sextets xs) @ ?tl) = a2b_loop st' ?tl"
    using a2b_groups [OF q0 xs, of ?tl] by blast
  have tail: "a2b_loop st' ?tl = Inr (decoded st' @ [b0, b1])"
    by (rule a2b_tail2 [OF st'1 t64 tdrop])
  have "base64url_decode (butlast (base64url_encode bs) @ [urlsafe_encode_translate (b64_char ?t)])
      = a2b_loop a2b_init (map urlsafe_decode_translate
          (butlast (base64url_encode bs) @ [urlsafe_encode_translate (b64_char ?t)] @ [pad_byte]))"
    using len by (simp add: base64url_decode_def Let_def urlsafe_b64decode_def a2b_base64_def)
  also have "\<dots> = a2b_loop a2b_init (map b64_char (b64_sextets xs) @ ?tl)"
    by (simp only: input)
  also have "\<dots> = Inr bs"
    using st'3 tail st'2 bs by (simp add: a2b_init_def)
  finally show ?thesis
    using bs sx by simp
qed

lemma b64url_char_inj:
  assumes "unat a < 64" and "unat b < 64"
    and "urlsafe_encode_translate (b64_char a) = urlsafe_encode_translate (b64_char b)"
  shows "a = b"
proof -
  have "a2b_table (urlsafe_decode_translate (urlsafe_encode_translate (b64_char a)))
      = a2b_table (urlsafe_decode_translate (urlsafe_encode_translate (b64_char b)))"
    using assms(3) by simp
  then show ?thesis using assms(1,2) by simp
qed

lemma base64url_last_char_variant_differs:
  assumes "length bs mod 3 = 2"
  shows "butlast (base64url_encode bs) @ [urlsafe_encode_translate (b64_char (last (b64_sextets bs) OR 1))]
         \<noteq> base64url_encode bs"
proof
  let ?x = "last (b64_sextets bs)"
  assume eq: "butlast (base64url_encode bs) @ [urlsafe_encode_translate (b64_char (?x OR 1))]
              = base64url_encode bs"
  have ne: "b64_sextets bs \<noteq> []" using assms length_b64_sextets [of bs] by auto
  have "last (base64url_encode bs) = urlsafe_encode_translate (b64_char ?x)"
    using ne by (simp add: base64url_encode_eq last_map)
  then have "urlsafe_encode_translate (b64_char (?x OR 1)) = urlsafe_encode_translate (b64_char ?x)"
    using eq by (metis last_snoc)
  moreover obtain b1 where x: "?x = sextet (push_bit 2 b1)"
  proof -
    have two: "2 \<le> length bs"
    proof (rule ccontr)
      assume "\<not> 2 \<le> length bs"
      then have "length bs < 2" by simp
      with assms show False by simp
    qed
    have "length (drop (length bs - 2) bs) = 2" using two by simp
    then obtain b0 b1 where d: "drop (length bs - 2) bs = [b0, b1]"
      using length_two_cases by blast
    have "length (take (length bs - 2) bs) mod 3 = 0" using assms two by simp presburger
    then have "b64_sextets bs = b64_sextets (take (length bs - 2) bs) @ b64_sextets [b0, b1]"
      using b64_sextets_append d by (metis append_take_drop_id)
    then show ?thesis using that by simp
  qed
  moreover have "unat (?x OR 1) < 64"
  proof -
    have "?x OR 1 = sextet (?x OR 1)" unfolding x
      by (rule byte_eqI, drule bit_index_cases, elim disjE, simp_all add: bit_simps sextet_def)
    then show ?thesis by (metis sextet_bound)
  qed
  ultimately have "?x OR 1 = ?x" using b64url_char_inj x sextet_bound by metis
  moreover have "bit (?x OR 1) 0 \<noteq> bit ?x 0" unfolding x by (simp add: bit_simps sextet_def)
  ultimately show False by simp
qed


lemma base64url_encode_nonempty: "bs \<noteq> [] \<Longrightarrow> base64url_encode bs \<noteq> []"
  by (cases bs rule: b64_sextets.cases) (simp_all add: base64url_encode_eq)

end
