(* ===== verification/Json.thy ===== *)
theory Json
  imports Prelude
begin

text \<open>
  Python's \<open>json\<close> module as python-jose uses it: \<open>json.dumps\<close> with
  \<open>separators=(",", ":")\<close> and \<open>ensure_ascii=True\<close> (for the header also
  \<open>sort_keys=True\<close>), and \<open>json.loads\<close> as CPython's C scanner implements it
  (\<open>Modules/_json.c\<close>: \<open>scan_once_unicode\<close>, \<open>_parse_object_unicode\<close>,
  \<open>_parse_array_unicode\<close>, \<open>scanstring_unicode\<close>, \<open>_match_number_unicode\<close>).

  A JSON object is an association list that behaves like the \<open>dict\<close> the scanner builds:
  a repeated key keeps its first position and takes the last value.  Nesting of arrays and
  objects is bounded by the interpreter's recursion budget \<open>d\<close>
  (\<open>Py_EnterRecursiveCall\<close>): deeper input raises \<open>RecursionError\<close>.  The scanner
  recurses on its input; its recursion is written with a fuel argument that every call
  spends, and \<open>loads\<close> supplies one unit per input character.

  Modelling limits: a float literal is kept as its exact decimal value (IEEE rounding is not
  modelled; the program never writes a float), and a \<open>\uXXXX\<close> escape above U+00FF is
  outside the modelled code points and is rejected.
\<close>

section \<open>Values\<close>

datatype pyfloat = FloatDec int int | FloatInf | FloatNegInf | FloatNaN

datatype json =
    JNull
  | JBool bool
  | JInt int
  | JFloat pyfloat
  | JStr pystr
  | JArr "json list"
  | JObj "(pystr \<times> json) list"

text \<open>\<open>dict.get\<close> and \<open>d[k] = v\<close> on the association list.\<close>

definition dict_get :: "(pystr \<times> json) list \<Rightarrow> pystr \<Rightarrow> json option" where
  "dict_get kvs k = map_of kvs k"

fun dict_set :: "(pystr \<times> json) list \<Rightarrow> pystr \<Rightarrow> json \<Rightarrow> (pystr \<times> json) list" where
  "dict_set [] k v = [(k, v)]"
| "dict_set ((k', v') # kvs) k v =
     (if k' = k then (k, v) # kvs else (k', v') # dict_set kvs k v)"

section \<open>Characters\<close>

definition is_digit :: "char \<Rightarrow> bool" where
  "is_digit c \<longleftrightarrow> 48 \<le> (of_char c :: nat) \<and> (of_char c :: nat) \<le> 57"

definition json_ws :: "char \<Rightarrow> bool" where
  "json_ws c \<longleftrightarrow> (of_char c :: nat) \<in> {9, 10, 13, 32}"

definition skip_ws :: "pystr \<Rightarrow> pystr" where
  "skip_ws s = dropWhile json_ws s"

definition hex_digit :: "nat \<Rightarrow> char" where
  "hex_digit n = ''0123456789abcdef'' ! n"

definition hex_value :: "char \<Rightarrow> nat option" where
  "hex_value c =
     (let n = of_char c :: nat in
      if 48 \<le> n \<and> n \<le> 57 then Some (n - 48)
      else if 97 \<le> n \<and> n \<le> 102 then Some (n - 87)
      else if 65 \<le> n \<and> n \<le> 70 then Some (n - 55)
      else None)"

section \<open>Serialisation (\<open>json.dumps\<close>)\<close>

text \<open>\<open>int.__repr__\<close>.\<close>

fun nat_repr :: "nat \<Rightarrow> pystr" where
  "nat_repr n = (if n < 10 then [hex_digit n] else nat_repr (n div 10) @ [hex_digit (n mod 10)])"

declare nat_repr.simps [simp del]

definition int_repr :: "int \<Rightarrow> pystr" where
  "int_repr i = (if i < 0 then CHR ''-'' # nat_repr (nat (- i)) else nat_repr (nat i))"

text \<open>
  \<open>py_encode_basestring_ascii\<close>: printable ASCII other than quote and backslash is kept;
  quote, backslash, BS, FF, LF, CR and TAB get their two-character escapes; every other
  character becomes \<open>\u00xx\<close> with lower-case hex digits.
\<close>

definition escape_char :: "char \<Rightarrow> pystr" where
  "escape_char c =
     (let n = of_char c :: nat in
      if n = 34 then [CHR 0x5C, CHR 0x22]
      else if n = 92 then [CHR 0x5C, CHR 0x5C]
      else if 32 \<le> n \<and> n \<le> 126 then [c]
      else if n = 8 then [CHR 0x5C, CHR ''b'']
      else if n = 12 then [CHR 0x5C, CHR ''f'']
      else if n = 10 then [CHR 0x5C, CHR ''n'']
      else if n = 13 then [CHR 0x5C, CHR ''r'']
      else if n = 9 then [CHR 0x5C, CHR ''t'']
      else [CHR 0x5C, CHR ''u'', CHR ''0'', CHR ''0'', hex_digit (n div 16), hex_digit (n mod 16)])"

definition dumps_str :: "pystr \<Rightarrow> pystr" where
  "dumps_str s = CHR 0x22 # concat (map escape_char s) @ [CHR 0x22]"

definition float_repr :: "pyfloat \<Rightarrow> pystr" where
  "float_repr f = (case f of
      FloatInf \<Rightarrow> ''Infinity'' | FloatNegInf \<Rightarrow> ''-Infinity'' | FloatNaN \<Rightarrow> ''NaN''
    | FloatDec m e \<Rightarrow> int_repr m @ ''e'' @ int_repr e)"

text \<open>The item separator \<open>","\<close> between serialised items.\<close>

fun sep_join :: "pystr list \<Rightarrow> pystr" where
  "sep_join [] = []"
| "sep_join [x] = x"
| "sep_join (x # y # ys) = x @ CHR '','' # sep_join (y # ys)"

fun dumps_plain :: "json \<Rightarrow> pystr" where
  "dumps_plain JNull = ''null''"
| "dumps_plain (JBool b) = (if b then ''true'' else ''false'')"
| "dumps_plain (JInt i) = int_repr i"
| "dumps_plain (JFloat f) = float_repr f"
| "dumps_plain (JStr s) = dumps_str s"
| "dumps_plain (JArr vs) = CHR ''['' # sep_join (map dumps_plain vs) @ [CHR '']'']"
| "dumps_plain (JObj kvs) =
     CHR ''{'' # sep_join (map (\<lambda>(k, v). dumps_str k @ CHR '':'' # dumps_plain v) kvs) @ [CHR ''}'']"

text \<open>\<open>sort_keys=True\<close> orders the items of every object by key.\<close>

fun json_sort :: "json \<Rightarrow> json" where
  "json_sort (JArr vs) = JArr (map json_sort vs)"
| "json_sort (JObj kvs) = JObj (sort_key fst (map (\<lambda>(k, v). (k, json_sort v)) kvs))"
| "json_sort v = v"

definition dumps :: "bool \<Rightarrow> json \<Rightarrow> pystr" where
  "dumps sort_keys v = dumps_plain (if sort_keys then json_sort v else v)"

text \<open>
  The values that \<open>dumps\<close> and \<open>loads\<close> carry unchanged: no floats (the program never
  serialises one), objects without repeated keys (a \<open>dict\<close> has none), and integers of
  at most 4300 digits (\<open>sys.get_int_max_str_digits()\<close>).  The depth is the nesting of
  arrays and objects, which the recursion budget bounds.
\<close>

fun json_wf :: "json \<Rightarrow> bool" where
  "json_wf (JFloat f) = False"
| "json_wf (JInt i) = (length (nat_repr (nat \<bar>i\<bar>)) \<le> 4300)"
| "json_wf (JArr vs) = (\<forall>v \<in> set vs. json_wf v)"
| "json_wf (JObj kvs) = (distinct (map fst kvs) \<and> (\<forall>kv \<in> set kvs. json_wf (snd kv)))"
| "json_wf _ = True"

fun json_depth :: "json \<Rightarrow> nat" where
  "json_depth (JArr vs) = Suc (foldr max (map json_depth vs) 0)"
| "json_depth (JObj kvs) = Suc (foldr max (map (\<lambda>kv. json_depth (snd kv)) kvs) 0)"
| "json_depth _ = 0"

text \<open>What may follow a serialised value inside a serialisation: nothing, a comma or a closing bracket.\<close>

definition json_stop :: "pystr \<Rightarrow> bool" where
  "json_stop r \<longleftrightarrow> (case r of [] \<Rightarrow> True | c # _ \<Rightarrow> c = CHR '','' \<or> c = CHR '']'' \<or> c = CHR ''}'')"

text \<open>The text of one object member.\<close>

abbreviation member_text :: "pystr \<times> json \<Rightarrow> pystr" where
  "member_text kv \<equiv> dumps_str (fst kv) @ CHR '':'' # dumps_plain (snd kv)"

section \<open>Parsing (\<open>json.loads\<close>)\<close>

definition hex4 :: "char \<Rightarrow> char \<Rightarrow> char \<Rightarrow> char \<Rightarrow> nat option" where
  "hex4 a b c d =
     (case (hex_value a, hex_value b, hex_value c, hex_value d) of
        (Some w, Some x, Some y, Some z) \<Rightarrow> Some (((w * 16 + x) * 16 + y) * 16 + z)
      | _ \<Rightarrow> None)"

text \<open>
  \<open>scanstring_unicode\<close> in strict mode, after the opening quote: control characters are
  rejected, escapes are decoded, the closing quote ends the string.
\<close>

fun scan_string :: "pystr \<Rightarrow> pystr \<Rightarrow> exc + (pystr \<times> pystr)" where
  "scan_string acc [] = Inl JSONDecodeError"
| "scan_string acc (c # r) =
     (if c = CHR 0x22 then Inr (acc, r)
      else if c = CHR 0x5C then
        (case r of
           [] \<Rightarrow> Inl JSONDecodeError
         | e # r' \<Rightarrow>
             if e = CHR 0x22 \<or> e = CHR 0x5C \<or> e = CHR ''/'' then scan_string (acc @ [e]) r'
             else if e = CHR ''b'' then scan_string (acc @ [char_of (8::nat)]) r'
             else if e = CHR ''f'' then scan_string (acc @ [char_of (12::nat)]) r'
             else if e = CHR ''n'' then scan_string (acc @ [char_of (10::nat)]) r'
             else if e = CHR ''r'' then scan_string (acc @ [char_of (13::nat)]) r'
             else if e = CHR ''t'' then scan_string (acc @ [char_of (9::nat)]) r'
             else if e = CHR ''u'' then
               (case r' of
                  h1 # h2 # h3 # h4 # r'' \<Rightarrow>
                    (case hex4 h1 h2 h3 h4 of
                       Some n \<Rightarrow> if n < 256 then scan_string (acc @ [char_of n]) r''
                                 else Inl JSONDecodeError
                     | None \<Rightarrow> Inl JSONDecodeError)
                | _ \<Rightarrow> Inl JSONDecodeError)
             else Inl JSONDecodeError)
      else if (of_char c :: nat) < 32 then Inl JSONDecodeError
      else scan_string (acc @ [c]) r)"

definition digits_value :: "pystr \<Rightarrow> nat" where
  "digits_value ds = foldl (\<lambda>acc c. 10 * acc + (of_char c - 48)) 0 ds"

text \<open>The optional exponent of \<open>_match_number_unicode\<close>: without digits it is not consumed.\<close>

definition scan_exponent :: "pystr \<Rightarrow> int option \<times> pystr" where
  "scan_exponent s =
     (case s of
        e # t \<Rightarrow>
          if e = CHR ''e'' \<or> e = CHR ''E'' then
            (let (sg, t') = (case t of
                               c # u \<Rightarrow> if c = CHR ''+'' then (1, u) else if c = CHR ''-'' then (-1, u) else (1, t)
                             | [] \<Rightarrow> (1, t));
                 ed = takeWhile is_digit t'
             in if ed = [] then (None, s) else (Some (sg * int (digits_value ed)), dropWhile is_digit t'))
          else (None, s)
      | [] \<Rightarrow> (None, s))"

text \<open>
  \<open>_match_number_unicode\<close>: an optional minus, \<open>0\<close> or a digit string without leading
  zero, an optional fraction (a dot followed by at least one digit) and an optional exponent.
  Without fraction and exponent the literal is an \<open>int\<close>; \<open>int()\<close> of more than 4300
  digits raises \<open>ValueError\<close>.
\<close>

definition scan_int_part :: "char \<Rightarrow> pystr \<Rightarrow> pystr \<times> pystr" where
  "scan_int_part c r =
     (if c = CHR ''0'' then ([c], r) else (c # takeWhile is_digit r, dropWhile is_digit r))"

definition scan_frac :: "pystr \<Rightarrow> pystr \<times> pystr" where
  "scan_frac r =
     (case r of
        d # e # t \<Rightarrow> if d = CHR ''.'' \<and> is_digit e
                     then (takeWhile is_digit (e # t), dropWhile is_digit (e # t)) else ([], r)
      | _ \<Rightarrow> ([], r))"

definition scan_number :: "pystr \<Rightarrow> exc + (json \<times> pystr)" where
  "scan_number s =
     (let (neg, s1) = (case s of c # r \<Rightarrow> if c = CHR ''-'' then (True, r) else (False, s) | [] \<Rightarrow> (False, s));
          sg = (if neg then -1 else 1 :: int)
      in case s1 of
           [] \<Rightarrow> Inl JSONDecodeError
         | c # r \<Rightarrow>
             if \<not> is_digit c then Inl JSONDecodeError
             else
               (let (ip, r1) = scan_int_part c r;
                    (fp, r2) = scan_frac r1;
                    (ex, r3) = scan_exponent r2
                in if fp = [] \<and> ex = None then
                     (if 4300 < length ip then Inl ValueError
                      else Inr (JInt (sg * int (digits_value ip)), r2))
                   else Inr (JFloat (FloatDec (sg * int (digits_value (ip @ fp)))
                                               ((case ex of Some x \<Rightarrow> x | None \<Rightarrow> 0) - int (length fp))), r3)))"

text \<open>The constants of \<open>scan_once_unicode\<close>, then numbers.\<close>

definition scan_literal :: "pystr \<Rightarrow> exc + (json \<times> pystr)" where
  "scan_literal s =
     (if take 4 s = ''null'' then Inr (JNull, drop 4 s)
      else if take 4 s = ''true'' then Inr (JBool True, drop 4 s)
      else if take 5 s = ''false'' then Inr (JBool False, drop 5 s)
      else if take 3 s = ''NaN'' then Inr (JFloat FloatNaN, drop 3 s)
      else if take 8 s = ''Infinity'' then Inr (JFloat FloatInf, drop 8 s)
      else if take 9 s = ''-Infinity'' then Inr (JFloat FloatNegInf, drop 9 s)
      else scan_number s)"

text \<open>
  \<open>scan_once_unicode\<close> and the array and object loops, as one recursion on the fuel
  (\<open>None\<close> when it runs out), over the scanner \<open>lit\<close> of constants and numbers (which
  \<open>parse_int\<close> and \<open>parse_float\<close> configure).  The mode says which of the three C functions runs:
  \<open>PValue\<close> scans one value, \<open>PArray acc\<close> and \<open>PObject acc\<close> continue an array or
  object after its opening bracket (or after a comma) with the items read so far.  The
  third argument is the remaining recursion budget.
\<close>

datatype pmode = PValue | PArray "json list" | PObject "(pystr \<times> json) list"

primrec parse_with ::
  "(pystr \<Rightarrow> exc + (json \<times> pystr)) \<Rightarrow> nat \<Rightarrow> pmode \<Rightarrow> nat \<Rightarrow> pystr \<Rightarrow> (exc + (json \<times> pystr)) option" where
  "parse_with lit 0 m d s = None"
| "parse_with lit (Suc n) m d s =
     (case m of
        PValue \<Rightarrow>
          (case s of
             [] \<Rightarrow> Some (Inl JSONDecodeError)
           | c # r \<Rightarrow>
               if c = CHR 0x22 then
                 Some (case scan_string [] r of Inl e \<Rightarrow> Inl e | Inr (x, t) \<Rightarrow> Inr (JStr x, t))
               else if c = CHR ''{'' then
                 (if d = 0 then Some (Inl RecursionError)
                  else (case skip_ws r of
                          c' # t \<Rightarrow> if c' = CHR ''}'' then Some (Inr (JObj [], t))
                                    else parse_with lit n (PObject []) (d - 1) (skip_ws r)
                        | [] \<Rightarrow> Some (Inl JSONDecodeError)))
               else if c = CHR ''['' then
                 (if d = 0 then Some (Inl RecursionError)
                  else (case skip_ws r of
                          c' # t \<Rightarrow> if c' = CHR '']'' then Some (Inr (JArr [], t))
                                    else parse_with lit n (PArray []) (d - 1) (skip_ws r)
                        | [] \<Rightarrow> Some (Inl JSONDecodeError)))
               else Some (lit s))
      | PArray acc \<Rightarrow>
          (case parse_with lit n PValue d s of
             None \<Rightarrow> None
           | Some (Inl e) \<Rightarrow> Some (Inl e)
           | Some (Inr (v, t)) \<Rightarrow>
               (case skip_ws t of
                  [] \<Rightarrow> Some (Inl JSONDecodeError)
                | c # u \<Rightarrow>
                    if c = CHR '']'' then Some (Inr (JArr (acc @ [v]), u))
                    else if c = CHR '','' then parse_with lit n (PArray (acc @ [v])) d (skip_ws u)
                    else Some (Inl JSONDecodeError)))
      | PObject acc \<Rightarrow>
          (case s of
             [] \<Rightarrow> Some (Inl JSONDecodeError)
           | c # r \<Rightarrow>
               if c \<noteq> CHR 0x22 then Some (Inl JSONDecodeError)
               else
                 (case scan_string [] r of
                    Inl e \<Rightarrow> Some (Inl e)
                  | Inr (k, r2) \<Rightarrow>
                      (case skip_ws r2 of
                         [] \<Rightarrow> Some (Inl JSONDecodeError)
                       | c2 # r3 \<Rightarrow>
                           if c2 \<noteq> CHR '':'' then Some (Inl JSONDecodeError)
                           else
                             (case parse_with lit n PValue d (skip_ws r3) of
                                None \<Rightarrow> None
                              | Some (Inl e) \<Rightarrow> Some (Inl e)
                              | Some (Inr (v, r4)) \<Rightarrow>
                                  (case skip_ws r4 of
                                     [] \<Rightarrow> Some (Inl JSONDecodeError)
                                   | c4 # u \<Rightarrow>
                                       if c4 = CHR ''}'' then Some (Inr (JObj (dict_set acc k v), u))
                                       else if c4 = CHR '','' then parse_with lit n (PObject (dict_set acc k v)) d (skip_ws u)
                                       else Some (Inl JSONDecodeError)))))))"

text \<open>The scanner of \<open>json.loads\<close> with its default number conversions.\<close>

abbreviation parse :: "nat \<Rightarrow> pmode \<Rightarrow> nat \<Rightarrow> pystr \<Rightarrow> (exc + (json \<times> pystr)) option" where
  "parse \<equiv> parse_with scan_literal"

text \<open>
  \<open>json.loads\<close> of a \<open>str\<close>: leading whitespace, one value, trailing whitespace, and
  nothing else (\<open>Extra data\<close>).  Every call consumes a character except the step
  from an array loop to its next element, so two units of fuel per character suffice
  (\<open>parse_enough_fuel\<close>).
\<close>

definition loads :: "nat \<Rightarrow> pystr \<Rightarrow> exc + json" where
  "loads d s =
     (case parse (2 * length s + 2) PValue d (skip_ws s) of
        None \<Rightarrow> Inl JSONDecodeError
      | Some (Inl e) \<Rightarrow> Inl e
      | Some (Inr (v, r)) \<Rightarrow> if skip_ws r = [] then Inr v else Inl JSONDecodeError)"

text \<open>The fuel that a value, or the rest of an array or object, needs: two units per character
  and one more for a value, two for the rest of a container (\<open>parse_fuel_enough\<close>).\<close>

definition parse_fuel :: "pmode \<Rightarrow> pystr \<Rightarrow> nat" where
  "parse_fuel m s = (case m of PValue \<Rightarrow> 2 * length s + 1 | _ \<Rightarrow> 2 * length s + 2)"

text \<open>\<open>json.loads(s, parse_int=str, parse_float=str)\<close>: a number is returned as the text
  the scanner matched (sign, integer part, fraction and exponent), with no conversion and so
  no digit limit; \<open>NaN\<close> and \<open>Infinity\<close> still go through \<open>parse_constant\<close>.\<close>

definition scan_number_text :: "pystr \<Rightarrow> exc + (json \<times> pystr)" where
  "scan_number_text s =
     (let s1 = (case s of c # r \<Rightarrow> if c = CHR ''-'' then r else s | [] \<Rightarrow> s)
      in case s1 of
           [] \<Rightarrow> Inl JSONDecodeError
         | c # r \<Rightarrow>
             if \<not> is_digit c then Inl JSONDecodeError
             else
               (let (ip, r1) = scan_int_part c r;
                    (fp, r2) = scan_frac r1;
                    (ex, r3) = scan_exponent r2;
                    rest = (if fp = [] \<and> ex = None then r2 else r3)
                in Inr (JStr (take (length s - length rest) s), rest)))"

definition scan_literal_text :: "pystr \<Rightarrow> exc + (json \<times> pystr)" where
  "scan_literal_text s =
     (if take 4 s = ''null'' then Inr (JNull, drop 4 s)
      else if take 4 s = ''true'' then Inr (JBool True, drop 4 s)
      else if take 5 s = ''false'' then Inr (JBool False, drop 5 s)
      else if take 3 s = ''NaN'' then Inr (JFloat FloatNaN, drop 3 s)
      else if take 8 s = ''Infinity'' then Inr (JFloat FloatInf, drop 8 s)
      else if take 9 s = ''-Infinity'' then Inr (JFloat FloatNegInf, drop 9 s)
      else scan_number_text s)"

definition loads_key :: "nat \<Rightarrow> pystr \<Rightarrow> exc + json" where
  "loads_key d s =
     (case parse_with scan_literal_text (2 * length s + 2) PValue d (skip_ws s) of
        None \<Rightarrow> Inl JSONDecodeError
      | Some (Inl e) \<Rightarrow> Inl e
      | Some (Inr (v, r)) \<Rightarrow> if skip_ws r = [] then Inr v else Inl JSONDecodeError)"

text \<open>Every step of the scanner consumes input when its scanner of literals does.\<close>

definition lit_consumes :: "(pystr \<Rightarrow> exc + (json \<times> pystr)) \<Rightarrow> bool" where
  "lit_consumes lit \<longleftrightarrow> (\<forall>s v t. lit s = Inr (v, t) \<longrightarrow> length t < length s)"

section \<open>Properties\<close>

lemma hex_value_hex_digit: "k < 16 \<Longrightarrow> hex_value (hex_digit k) = Some k"
proof -
  assume "k < 16"
  then have "k \<in> {0..<16}" by simp
  then show ?thesis
    by (simp add: atLeastLessThan_nat_numeral hex_value_def hex_digit_def) (elim disjE; simp)
qed

lemma char_of_eq_iff_nat:
  assumes "(n::nat) < 256"
  shows "char_of n = d \<longleftrightarrow> n = of_char d"
proof
  assume "char_of n = d"
  then have "of_char (char_of n) = (of_char d :: nat)" by simp
  then show "n = of_char d" using assms by simp
next
  assume "n = of_char d"
  then show "char_of n = d" by simp
qed

lemma char_neq_by_code: "(of_char c :: nat) \<noteq> of_char d \<Longrightarrow> c \<noteq> d"
  by auto

lemma scan_string_escape_char:
  "scan_string acc (escape_char c @ t) = scan_string (acc @ [c]) t"
proof -
  define n where "n = (of_char c :: nat)"
  have n: "n < 256" by (simp add: n_def)
  have c: "c = char_of n" by (simp add: n_def)
  consider "n = 34" | "n = 92" | "32 \<le> n \<and> n \<le> 126 \<and> n \<noteq> 34 \<and> n \<noteq> 92"
    | "n = 8" | "n = 12" | "n = 10" | "n = 13" | "n = 9"
    | "\<not> (32 \<le> n \<and> n \<le> 126) \<and> n \<notin> {8, 12, 10, 13, 9}" by auto
  then show ?thesis
  proof cases
    case 1
    then have "c = CHR 0x22" using c by (simp add: char_of_eq_iff_nat)
    then show ?thesis by (simp add: escape_char_def)
  next
    case 2
    then have "c = CHR 0x5C" using c by (simp add: char_of_eq_iff_nat)
    then show ?thesis by (simp add: escape_char_def)
  next
    case 3
    then have "c \<noteq> CHR 0x22" "c \<noteq> CHR 0x5C" "\<not> (of_char c :: nat) < 32"
      by (auto simp: n_def intro!: char_neq_by_code)
    with 3 show ?thesis by (simp add: escape_char_def Let_def n_def [symmetric])
  next
    case 4
    then have "c = char_of (8::nat)" using c by simp
    then show ?thesis by (simp add: escape_char_def)
  next
    case 5
    then have "c = char_of (12::nat)" using c by simp
    then show ?thesis by (simp add: escape_char_def)
  next
    case 6
    then have "c = char_of (10::nat)" using c by simp
    then show ?thesis by (simp add: escape_char_def)
  next
    case 7
    then have "c = char_of (13::nat)" using c by simp
    then show ?thesis by (simp add: escape_char_def)
  next
    case 8
    then have "c = char_of (9::nat)" using c by simp
    then show ?thesis by (simp add: escape_char_def)
  next
    case 9
    have hx: "hex4 (CHR ''0'') (CHR ''0'') (hex_digit (n div 16)) (hex_digit (n mod 16)) = Some n"
      using n by (simp add: hex4_def hex_value_hex_digit) (simp add: hex_value_def)
    have e: "escape_char c = [CHR 0x5C, CHR ''u'', CHR ''0'', CHR ''0'', hex_digit (n div 16), hex_digit (n mod 16)]"
      using 9 by (auto simp: escape_char_def Let_def n_def [symmetric])
    show ?thesis unfolding e using hx n c by simp
  qed
qed

lemma scan_string_dumps_str:
  "scan_string acc (tl (dumps_str s) @ rest) = Inr (acc @ s, rest)"
  by (induction s arbitrary: acc) (simp_all add: dumps_str_def scan_string_escape_char)


lemma hex_digit_code: "k < 10 \<Longrightarrow> (of_char (hex_digit k) :: nat) = 48 + k"
proof -
  assume "k < 10"
  then have "k \<in> {0..<10}" by simp
  then show ?thesis
    by (simp add: atLeastLessThan_nat_numeral hex_digit_def) (elim disjE; simp)
qed

lemma is_digit_hex_digit: "k < 10 \<Longrightarrow> is_digit (hex_digit k)"
  by (simp add: is_digit_def hex_digit_code)

lemma nat_repr_digits: "\<forall>c \<in> set (nat_repr n). is_digit c"
  by (induction n rule: nat_repr.induct) (subst nat_repr.simps, simp add: is_digit_hex_digit)

lemma nat_repr_nonempty: "nat_repr n \<noteq> []"
  by (subst nat_repr.simps) simp

lemma nat_repr_hd: "0 < n \<Longrightarrow> hd (nat_repr n) \<noteq> CHR ''0''"
proof (induction n rule: nat_repr.induct)
  case (1 n)
  show ?case
  proof (cases "n < 10")
    case True
    then have "(of_char (hex_digit n) :: nat) \<noteq> of_char (CHR ''0'')"
      using "1.prems" by (simp add: hex_digit_code)
    with True show ?thesis by (subst nat_repr.simps) auto
  next
    case False
    then have "hd (nat_repr (n div 10)) \<noteq> CHR ''0''" using "1.IH" by simp
    with False show ?thesis by (subst nat_repr.simps) (simp add: nat_repr_nonempty)
  qed
qed

lemma nat_repr_zero: "nat_repr 0 = ''0''"
  by (simp add: hex_digit_def nat_repr.simps)

lemma digits_value_snoc: "digits_value (xs @ [c]) = 10 * digits_value xs + (of_char c - 48)"
  by (simp add: digits_value_def)

lemma digits_value_nat_repr: "digits_value (nat_repr n) = n"
proof (induction n rule: nat_repr.induct)
  case (1 n)
  show ?case
  proof (cases "n < 10")
    case True
    then show ?thesis by (subst nat_repr.simps) (simp add: digits_value_def hex_digit_code)
  next
    case False
    then show ?thesis using "1.IH" by (subst nat_repr.simps) (simp add: digits_value_snoc hex_digit_code)
  qed
qed

lemma json_stop_not_digit: "json_stop (c # r) \<Longrightarrow> \<not> is_digit c"
  by (auto simp: json_stop_def is_digit_def)

lemma takeWhile_digits_stop:
  "json_stop rest \<Longrightarrow> takeWhile is_digit (nat_repr m @ rest) = nat_repr m"
  "json_stop rest \<Longrightarrow> dropWhile is_digit (nat_repr m @ rest) = rest"
  using nat_repr_digits [of m]
  by (cases rest; simp add: takeWhile_append2 dropWhile_append2 json_stop_not_digit)+

lemma scan_exponent_stop: "json_stop rest \<Longrightarrow> scan_exponent rest = (None, rest)"
  by (auto simp: json_stop_def scan_exponent_def split: list.splits)

lemma scan_frac_stop: "json_stop rest \<Longrightarrow> scan_frac rest = ([], rest)"
  by (auto simp: json_stop_def scan_frac_def split: list.splits)

lemma scan_number_digits:
  assumes ds: "\<forall>x \<in> set (c # r). is_digit x" and z: "c = CHR ''0'' \<Longrightarrow> r = []"
    and st: "json_stop rest" and len: "length (c # r) \<le> 4300"
  shows "scan_number (c # r @ rest) = Inr (JInt (int (digits_value (c # r))), rest)"
    and "scan_number (CHR ''-'' # c # r @ rest) = Inr (JInt (- int (digits_value (c # r))), rest)"
proof -
  have tw: "takeWhile is_digit (r @ rest) = r" and dw: "dropWhile is_digit (r @ rest) = rest"
    using ds st by (cases rest; simp add: takeWhile_append2 dropWhile_append2 json_stop_not_digit)+
  have nm: "c \<noteq> CHR ''-''" using ds by (auto simp: is_digit_def)
  have ip: "scan_int_part c (r @ rest) = (c # r, rest)"
    using z tw dw by (auto simp: scan_int_part_def)
  show "scan_number (c # r @ rest) = Inr (JInt (int (digits_value (c # r))), rest)"
    using ds nm len ip scan_frac_stop [OF st] scan_exponent_stop [OF st]
    by (simp add: scan_number_def Let_def)
  show "scan_number (CHR ''-'' # c # r @ rest) = Inr (JInt (- int (digits_value (c # r))), rest)"
    using ds len ip scan_frac_stop [OF st] scan_exponent_stop [OF st]
    by (simp add: scan_number_def Let_def)
qed

lemma scan_number_int_repr:
  assumes "json_stop rest" and "length (nat_repr (nat \<bar>i\<bar>)) \<le> 4300"
  shows "scan_number (int_repr i @ rest) = Inr (JInt i, rest)"
proof -
  obtain c r where cr: "nat_repr (nat \<bar>i\<bar>) = c # r"
    using nat_repr_nonempty by (cases "nat_repr (nat \<bar>i\<bar>)") auto
  have ds: "\<forall>x \<in> set (c # r). is_digit x" using nat_repr_digits cr by metis
  have z: "c = CHR ''0'' \<Longrightarrow> r = []"
  proof -
    assume c0: "c = CHR ''0''"
    have "nat \<bar>i\<bar> = 0"
    proof (rule ccontr)
      assume "nat \<bar>i\<bar> \<noteq> 0"
      then have "hd (nat_repr (nat \<bar>i\<bar>)) \<noteq> CHR ''0''" using nat_repr_hd by simp
      with cr c0 show False by simp
    qed
    then show "r = []" using cr by (simp add: nat_repr_zero)
  qed
  have v: "digits_value (c # r) = nat \<bar>i\<bar>" using digits_value_nat_repr cr by metis
  show ?thesis
  proof (cases "i < 0")
    case True
    then show ?thesis using scan_number_digits(2) [OF ds z assms(1)] assms(2) cr v
      by (simp add: int_repr_def)
  next
    case False
    then show ?thesis using scan_number_digits(1) [OF ds z assms(1)] assms(2) cr v
      by (simp add: int_repr_def)
  qed
qed


lemma dict_set_new: "k \<notin> set (map fst acc) \<Longrightarrow> dict_set acc k v = acc @ [(k, v)]"
  by (induction acc) auto

lemma dumps_str_Cons: "dumps_str s = CHR 0x22 # tl (dumps_str s)"
  by (simp add: dumps_str_def)

lemma int_repr_hd: "\<exists>r. int_repr i = CHR ''-'' # r \<or> (\<exists>c. int_repr i = c # r \<and> is_digit c)"
proof -
  obtain c r where cr: "nat_repr (nat \<bar>i\<bar>) = c # r"
    using nat_repr_nonempty by (cases "nat_repr (nat \<bar>i\<bar>)") auto
  then have "is_digit c" using nat_repr_digits [of "nat \<bar>i\<bar>"] by simp
  then show ?thesis using cr by (auto simp: int_repr_def)
qed

lemma dumps_plain_hd:
  "\<exists>c r. dumps_plain v = c # r \<and> \<not> json_ws c \<and> c \<noteq> CHR '']'' \<and> c \<noteq> CHR ''}''"
proof (cases v)
  case (JInt i)
  obtain r where "int_repr i = CHR ''-'' # r \<or> (\<exists>c. int_repr i = c # r \<and> is_digit c)"
    using int_repr_hd by blast
  then show ?thesis using JInt by (auto simp: json_ws_def is_digit_def)
next
  case (JFloat f)
  show ?thesis
  proof (cases f)
    case (FloatDec m e)
    obtain r where "int_repr m = CHR ''-'' # r \<or> (\<exists>c. int_repr m = c # r \<and> is_digit c)"
      using int_repr_hd by blast
    then show ?thesis using JFloat FloatDec by (auto simp: float_repr_def json_ws_def is_digit_def)
  qed (auto simp: JFloat float_repr_def json_ws_def)
qed (auto simp: json_ws_def dumps_str_def)

lemma sep_join_Cons: "sep_join (x # xs) = x @ (if xs = [] then [] else CHR '','' # sep_join xs)"
  by (cases xs) simp_all

lemma skip_ws_dumps_plain: "skip_ws (dumps_plain v @ r) = dumps_plain v @ r"
  using dumps_plain_hd [of v] by (auto simp: skip_ws_def)

lemma skip_ws_dumps_str: "skip_ws (dumps_str k @ r) = dumps_str k @ r"
  by (simp add: skip_ws_def dumps_str_def json_ws_def)

lemma skip_ws_punct [simp]:
  "skip_ws (CHR '','' # r) = CHR '','' # r" "skip_ws (CHR '']'' # r) = CHR '']'' # r"
  "skip_ws (CHR ''}'' # r) = CHR ''}'' # r" "skip_ws (CHR '':'' # r) = CHR '':'' # r"
  by (simp_all add: skip_ws_def json_ws_def)

lemma json_stop_punct [simp]:
  "json_stop (CHR '','' # r)" "json_stop (CHR '']'' # r)" "json_stop (CHR ''}'' # r)"
  by (simp_all add: json_stop_def)

lemma parse_array_loop:
  assumes "vs \<noteq> []"
    and IH: "\<And>v n rest. v \<in> set vs \<Longrightarrow> json_stop rest \<Longrightarrow> 2 * length (dumps_plain v @ rest) < n \<Longrightarrow>
               parse n PValue d (dumps_plain v @ rest) = Some (Inr (v, rest))"
    and "2 * length (sep_join (map dumps_plain vs) @ CHR '']'' # rest) + 1 < m"
  shows "parse m (PArray acc) d (sep_join (map dumps_plain vs) @ CHR '']'' # rest)
         = Some (Inr (JArr (acc @ vs), rest))"
  using assms
proof (induction vs arbitrary: acc m rule: induct_list012)
  case (2 v)
  then obtain m' where m: "m = Suc m'" by (cases m) auto
  have "parse m' PValue d (dumps_plain v @ CHR '']'' # rest) = Some (Inr (v, CHR '']'' # rest))"
    using "2.prems"(2) [of v] "2.prems"(3) m by simp
  then show ?case using m by simp
next
  case (3 v w ws)
  then obtain m' where m: "m = Suc m'" by (cases m) auto
  let ?tl = "sep_join (map dumps_plain (w # ws)) @ CHR '']'' # rest"
  have "parse m' PValue d (dumps_plain v @ CHR '','' # ?tl) = Some (Inr (v, CHR '','' # ?tl))"
    using "3.prems"(2) [of v "CHR '','' # ?tl" m'] "3.prems"(3) m by simp
  moreover have "skip_ws ?tl = ?tl" using skip_ws_dumps_plain [of w] by (simp add: sep_join_Cons)
  moreover have "parse m' (PArray (acc @ [v])) d ?tl = Some (Inr (JArr ((acc @ [v]) @ w # ws), rest))"
    using "3.IH" [where acc = "acc @ [v]" and m = m'] "3.prems" m by simp
  ultimately show ?case using m by simp
qed simp



lemma parse_member:
  assumes "parse m' PValue d (dumps_plain v @ X) = Some (Inr (v, X))"
  shows "parse (Suc m') (PObject acc) d (dumps_str k @ CHR '':'' # dumps_plain v @ X)
         = (case skip_ws X of [] \<Rightarrow> Some (Inl JSONDecodeError)
            | c4 # u \<Rightarrow> if c4 = CHR ''}'' then Some (Inr (JObj (dict_set acc k v), u))
                       else if c4 = CHR '','' then parse m' (PObject (dict_set acc k v)) d (skip_ws u)
                       else Some (Inl JSONDecodeError))"
proof -
  have e: "dumps_str k @ CHR '':'' # dumps_plain v @ X = CHR 0x22 # (tl (dumps_str k) @ CHR '':'' # dumps_plain v @ X)"
    by (subst dumps_str_Cons) simp
  have "scan_string [] (tl (dumps_str k) @ CHR '':'' # dumps_plain v @ X) = Inr (k, CHR '':'' # dumps_plain v @ X)"
    using scan_string_dumps_str [of "[]" k] by simp
  then show ?thesis unfolding e using assms by (simp add: skip_ws_dumps_plain)
qed

lemma parse_object_loop:
  assumes "kvs \<noteq> []" and "distinct (map fst (acc @ kvs))"
    and IH: "\<And>kv n rest. kv \<in> set kvs \<Longrightarrow> json_stop rest \<Longrightarrow> 2 * length (dumps_plain (snd kv) @ rest) < n \<Longrightarrow>
               parse n PValue d (dumps_plain (snd kv) @ rest) = Some (Inr (snd kv, rest))"
    and "2 * length (sep_join (map member_text kvs) @ CHR ''}'' # rest) + 1 < m"
  shows "parse m (PObject acc) d (sep_join (map member_text kvs) @ CHR ''}'' # rest)
         = Some (Inr (JObj (acc @ kvs), rest))"
  using assms
proof (induction kvs arbitrary: acc m rule: induct_list012)
  case (2 kv)
  then obtain m' where m: "m = Suc m'" by (cases m) auto
  have "parse m' PValue d (dumps_plain (snd kv) @ CHR ''}'' # rest) = Some (Inr (snd kv, CHR ''}'' # rest))"
    using "2.prems"(3) [of kv] "2.prems"(4) m by simp
  from parse_member [OF this, of acc "fst kv"] show ?case
    using m "2.prems"(2) by (simp add: dict_set_new)
next
  case (3 kv kw ks)
  then obtain m' where m: "m = Suc m'" by (cases m) auto
  let ?tl = "sep_join (map member_text (kw # ks)) @ CHR ''}'' # rest"
  have "parse m' PValue d (dumps_plain (snd kv) @ CHR '','' # ?tl) = Some (Inr (snd kv, CHR '','' # ?tl))"
    using "3.prems"(3) [of kv "CHR '','' # ?tl" m'] "3.prems"(4) m by (simp add: sep_join_Cons)
  note pm = parse_member [OF this, of acc "fst kv"]
  have sk: "skip_ws ?tl = ?tl" using skip_ws_dumps_str [of "fst kw"] by (simp add: sep_join_Cons)
  have ds: "dict_set acc (fst kv) (snd kv) = acc @ [kv]" using "3.prems"(2) by (simp add: dict_set_new)
  have "parse m' (PObject (acc @ [kv])) d ?tl = Some (Inr (JObj ((acc @ [kv]) @ kw # ks), rest))"
    using "3.IH" [where acc = "acc @ [kv]" and m = m'] "3.prems" m by (simp add: sep_join_Cons)
  then show ?case using pm sk ds m by (simp add: sep_join_Cons)
qed simp


lemma foldr_max_ge: "x \<in> set xs \<Longrightarrow> f x \<le> foldr max (map f xs) (0::nat)"
  by (induction xs) auto

lemma scan_literal_nat_repr:
  "scan_literal (nat_repr m @ rest) = scan_number (nat_repr m @ rest)"
  "scan_literal (CHR ''-'' # nat_repr m @ rest) = scan_number (CHR ''-'' # nat_repr m @ rest)"
proof -
  obtain c r where cr: "nat_repr m = c # r"
    using nat_repr_nonempty by (cases "nat_repr m") auto
  then have "is_digit c" using nat_repr_digits [of m] by simp
  then have nc: "c \<noteq> CHR ''n''" "c \<noteq> CHR ''t''" "c \<noteq> CHR ''f''" "c \<noteq> CHR ''N''" "c \<noteq> CHR ''I''"
    "c \<noteq> CHR ''-''" by (auto simp: is_digit_def)
  show "scan_literal (nat_repr m @ rest) = scan_number (nat_repr m @ rest)"
    using cr nc by (simp add: scan_literal_def)
  show "scan_literal (CHR ''-'' # nat_repr m @ rest) = scan_number (CHR ''-'' # nat_repr m @ rest)"
    using cr nc by (simp add: scan_literal_def)
qed

lemma scan_literal_int_repr: "scan_literal (int_repr i @ rest) = scan_number (int_repr i @ rest)"
  by (simp add: int_repr_def scan_literal_nat_repr)

lemma int_repr_first:
  "\<exists>c r. int_repr i = c # r \<and> c \<noteq> CHR 0x22 \<and> c \<noteq> CHR ''{'' \<and> c \<noteq> CHR ''[''"
  using int_repr_hd [of i] by (auto simp: is_digit_def)

lemma parse_open_array:
  "skip_ws r = r \<Longrightarrow> r = c # r' \<Longrightarrow> c \<noteq> CHR '']'' \<Longrightarrow>
   parse (Suc n) PValue (Suc d) (CHR ''['' # r) = parse n (PArray []) d r"
  by simp

lemma parse_open_object:
  "skip_ws r = r \<Longrightarrow> r = c # r' \<Longrightarrow> c \<noteq> CHR ''}'' \<Longrightarrow>
   parse (Suc n) PValue (Suc d) (CHR ''{'' # r) = parse n (PObject []) d r"
  by simp

theorem parse_dumps_plain:
  "json_wf v \<Longrightarrow> json_depth v \<le> d \<Longrightarrow> json_stop rest \<Longrightarrow> 2 * length (dumps_plain v @ rest) < n \<Longrightarrow>
   parse n PValue d (dumps_plain v @ rest) = Some (Inr (v, rest))"
proof (induction v arbitrary: n d rest rule: dumps_plain.induct)
  case 1
  then obtain n' where "n = Suc n'" by (cases n) auto
  then show ?case by (simp add: scan_literal_def)
next
  case (2 b)
  then obtain n' where "n = Suc n'" by (cases n) auto
  then show ?case by (cases b) (simp_all add: scan_literal_def)
next
  case (3 i)
  then obtain n' where n: "n = Suc n'" by (cases n) auto
  obtain c r where cr: "int_repr i = c # r" "c \<noteq> CHR 0x22" "c \<noteq> CHR ''{''" "c \<noteq> CHR ''[''"
    using int_repr_first by blast
  have "parse n PValue d (int_repr i @ rest) = Some (scan_literal (int_repr i @ rest))"
    using n cr by simp
  also have "\<dots> = Some (Inr (JInt i, rest))"
    using "3.prems" by (simp add: scan_literal_int_repr scan_number_int_repr)
  finally show ?case by simp
next
  case (4 f)
  then show ?case by simp
next
  case (5 s)
  then obtain n' where "n = Suc n'" by (cases n) auto
  moreover have e: "dumps_str s @ rest = CHR 0x22 # (tl (dumps_str s) @ rest)"
    by (subst dumps_str_Cons) simp
  ultimately show ?case unfolding dumps_plain.simps e by (simp add: scan_string_dumps_str)
next
  case (6 vs)
  then obtain n' where n: "n = Suc n'" by (cases n) auto
  have d: "0 < d" using "6.prems"(2) by simp
  show ?case
  proof (cases "vs = []")
    case True
    then show ?thesis using n d by simp
  next
    case False
    have el: "\<And>v n rest. v \<in> set vs \<Longrightarrow> json_stop rest \<Longrightarrow> 2 * length (dumps_plain v @ rest) < n \<Longrightarrow>
               parse n PValue (d - 1) (dumps_plain v @ rest) = Some (Inr (v, rest))"
    proof -
      fix v n rest
      assume "v \<in> set vs" "json_stop rest" "2 * length (dumps_plain v @ rest) < n"
      moreover have "json_depth v \<le> d - 1"
        using foldr_max_ge [OF \<open>v \<in> set vs\<close>, of json_depth] "6.prems"(2) by simp
      ultimately show "parse n PValue (d - 1) (dumps_plain v @ rest) = Some (Inr (v, rest))"
        using "6.IH" "6.prems"(1) by simp
    qed
    obtain w ws where vs: "vs = w # ws" using False by (cases vs) auto
    obtain c r where cr: "dumps_plain w = c # r" "\<not> json_ws c" "c \<noteq> CHR '']''"
      using dumps_plain_hd [of w] by blast
    have sk: "skip_ws (sep_join (map dumps_plain vs) @ CHR '']'' # rest)
              = sep_join (map dumps_plain vs) @ CHR '']'' # rest"
      using vs skip_ws_dumps_plain [of w] by (simp add: sep_join_Cons)
    have hd: "sep_join (map dumps_plain vs) @ CHR '']'' # rest = c # (r @ (if ws = [] then [] else CHR '','' # sep_join (map dumps_plain ws)) @ CHR '']'' # rest)"
      using vs cr by (simp add: sep_join_Cons)
    have loop: "parse n' (PArray []) (d - 1) (sep_join (map dumps_plain vs) @ CHR '']'' # rest)
                = Some (Inr (JArr vs, rest))"
      using parse_array_loop [OF False el, of rest n' "[]"] "6.prems"(4) n by simp
    obtain d' where d': "d = Suc d'" using d by (cases d) auto
    have "parse n PValue d (dumps_plain (JArr vs) @ rest)
          = parse n' (PArray []) d' (sep_join (map dumps_plain vs) @ CHR '']'' # rest)"
      using parse_open_array [OF sk hd] cr n d' by simp
    then show ?thesis using loop d' by simp
  qed
next
  case (7 kvs)
  then obtain n' where n: "n = Suc n'" by (cases n) auto
  have d: "0 < d" using "7.prems"(2) by simp
  show ?case
  proof (cases "kvs = []")
    case True
    then show ?thesis using n d by simp
  next
    case False
    have el: "\<And>kv n rest. kv \<in> set kvs \<Longrightarrow> json_stop rest \<Longrightarrow> 2 * length (dumps_plain (snd kv) @ rest) < n \<Longrightarrow>
               parse n PValue (d - 1) (dumps_plain (snd kv) @ rest) = Some (Inr (snd kv, rest))"
    proof -
      fix kv n rest
      assume kv: "kv \<in> set kvs" and "json_stop rest" "2 * length (dumps_plain (snd kv) @ rest) < n"
      moreover have "json_depth (snd kv) \<le> d - 1"
        using foldr_max_ge [OF kv, of "\<lambda>kv. json_depth (snd kv)"] "7.prems"(2) by simp
      moreover have "json_wf (snd kv)" using "7.prems"(1) kv by simp
      ultimately show "parse n PValue (d - 1) (dumps_plain (snd kv) @ rest) = Some (Inr (snd kv, rest))"
        using "7.IH" [of kv "fst kv" "snd kv"] by simp
    qed
    have mt: "map (\<lambda>(k, v). dumps_str k @ CHR '':'' # dumps_plain v) kvs = map member_text kvs"
      by (simp add: case_prod_beta)
    obtain kw ks where kvs: "kvs = kw # ks" using False by (cases kvs) auto
    have sk: "skip_ws (sep_join (map member_text kvs) @ CHR ''}'' # rest)
              = sep_join (map member_text kvs) @ CHR ''}'' # rest"
      using kvs skip_ws_dumps_str [of "fst kw"] by (simp add: sep_join_Cons)
    have hd: "sep_join (map member_text kvs) @ CHR ''}'' # rest = CHR 0x22 # (tl (dumps_str (fst kw)) @ CHR '':'' # dumps_plain (snd kw) @ (if ks = [] then [] else CHR '','' # sep_join (map member_text ks)) @ CHR ''}'' # rest)"
      using kvs dumps_str_Cons [of "fst kw"] by (simp add: sep_join_Cons)
    have loop: "parse n' (PObject []) (d - 1) (sep_join (map member_text kvs) @ CHR ''}'' # rest)
                = Some (Inr (JObj kvs, rest))"
      using parse_object_loop [OF False _ el, of "[]" rest n'] "7.prems"(1,4) n by (simp add: mt)
    obtain d' where d': "d = Suc d'" using d by (cases d) auto
    have "parse n PValue d (dumps_plain (JObj kvs) @ rest)
          = parse n' (PObject []) d' (sep_join (map member_text kvs) @ CHR ''}'' # rest)"
      using parse_open_object [OF sk hd] n d' by (simp add: mt)
    then show ?thesis using loop d' by simp
  qed
qed


lemma loads_dumps_plain:
  assumes "json_wf v" and "json_depth v \<le> d"
  shows "loads d (dumps_plain v) = Inr v"
proof -
  have p: "parse (2 * length (dumps_plain v) + 2) PValue d (dumps_plain v @ []) = Some (Inr (v, []))"
    by (rule parse_dumps_plain [OF assms]) (simp_all add: json_stop_def)
  have sk: "skip_ws (dumps_plain v) = dumps_plain v" using skip_ws_dumps_plain [of v "[]"] by simp
  show ?thesis unfolding loads_def sk using p by (simp del: parse_with.simps add: skip_ws_def)
qed


lemma length_nat_repr_bound: "n < 10 ^ k \<Longrightarrow> 0 < k \<Longrightarrow> length (nat_repr n) \<le> k"
proof (induction n arbitrary: k rule: nat_repr.induct)
  case (1 n)
  show ?case
  proof (cases "n < 10")
    case True
    then show ?thesis using 1 by (subst nat_repr.simps) simp
  next
    case False
    have k: "2 \<le> k"
    proof (rule ccontr)
      assume "\<not> 2 \<le> k"
      then have "k = 1" using 1(3) by simp
      then show False using 1(2) False by simp
    qed
    have "(10::nat) ^ k = 10 ^ (k - 1) * 10" using k by (cases k) simp_all
    then have "n div 10 < 10 ^ (k - 1)" using 1(2) by (simp add: less_mult_imp_div_less)
    then have "length (nat_repr (n div 10)) \<le> k - 1" using 1(1) False k by simp
    then show ?thesis using False k by (subst nat_repr.simps) simp
  qed
qed


text \<open>A text that starts (after whitespace) with neither a string nor a bracket is one
  scalar literal, whatever the recursion budget.\<close>

lemma loads_scalar:
  assumes "skip_ws s = c # r" and "c \<noteq> CHR 0x22" and "c \<noteq> CHR ''{''" and "c \<noteq> CHR ''[''"
  shows "loads d s = (case scan_literal (c # r) of
                        Inl e \<Rightarrow> Inl e
                      | Inr (v, t) \<Rightarrow> if skip_ws t = [] then Inr v else Inl JSONDecodeError)"
proof -
  have "2 * length s + 2 = Suc (Suc (2 * length s))" by simp
  then show ?thesis using assms by (simp add: loads_def split: sum.splits prod.splits)
qed

lemma loads_key_scalar:
  assumes "skip_ws s = c # r" and "c \<noteq> CHR 0x22" and "c \<noteq> CHR ''{''" and "c \<noteq> CHR ''[''"
  shows "loads_key d s = (case scan_literal_text (c # r) of
                            Inl e \<Rightarrow> Inl e
                          | Inr (v, t) \<Rightarrow> if skip_ws t = [] then Inr v else Inl JSONDecodeError)"
proof -
  have "2 * length s + 2 = Suc (Suc (2 * length s))" by simp
  then show ?thesis using assms by (simp add: loads_key_def split: sum.splits prod.splits)
qed

text \<open>Nesting deeper than the recursion budget: \<open>d + 1\<close> opening brackets make the scanner
  raise \<open>RecursionError\<close>, within the fuel that \<open>loads\<close> gives it.\<close>

lemma skip_ws_open: "skip_ws (CHR ''['' # r) = CHR ''['' # r"
  by (simp add: skip_ws_def json_ws_def)

lemma parse_nested:
  "2 * d < n \<Longrightarrow> parse n PValue d (replicate (Suc d) CHR ''['' @ r) = Some (Inl RecursionError)"
proof (induction d arbitrary: n)
  case 0
  then obtain m where "n = Suc m" by (cases n) auto
  then show ?case by simp
next
  case (Suc d)
  then obtain k where n: "n = Suc (Suc k)" and k: "2 * d < k"
    by (cases n; cases "n - 1") auto
  have "parse (Suc k) (PArray []) d (replicate (Suc d) CHR ''['' @ r) = Some (Inl RecursionError)"
    using Suc.IH [OF k] by simp
  then show ?case using n by (simp add: skip_ws_open)
qed

lemma loads_nested:
  "loads d (replicate (Suc d) CHR ''['' @ replicate (Suc d) CHR '']'') = Inl RecursionError"
proof -
  define s where "s = replicate (Suc d) CHR ''['' @ replicate (Suc d) CHR '']''"
  have ws: "skip_ws s = s" unfolding s_def by (simp add: skip_ws_open)
  have p: "parse (2 * length s + 2) PValue d s = Some (Inl RecursionError)"
    unfolding s_def by (rule parse_nested) simp
  show ?thesis unfolding s_def [symmetric] loads_def ws p by simp
qed

subsection \<open>The fuel is enough\<close>

text \<open>Every scanner step consumes input, so the remainder of a parse is shorter than its input,
  and \<open>parse_fuel\<close> units of fuel take the scanner to a result.\<close>

lemma skip_ws_length: "length (skip_ws s) \<le> length s"
  by (simp add: skip_ws_def length_dropWhile_le)

lemma scan_string_shorter: "scan_string acc r = Inr (x, t) \<Longrightarrow> length t < length r"
proof (induction r arbitrary: acc rule: length_induct)
  case (1 r)
  have ih: "scan_string a ys = Inr (x, t) \<Longrightarrow> length ys < length r \<Longrightarrow> length t < length ys" for a ys
    using 1(1) by blast
  show ?case using 1(2)
    by (cases r) (auto split: if_splits list.splits option.splits dest!: ih)
qed

lemma dropWhile_length_le: "length xs \<le> n \<Longrightarrow> length (dropWhile P xs) \<le> n"
  using length_dropWhile_le [of P xs] by linarith

lemma scan_int_part_length: "scan_int_part c r = (ip, r1) \<Longrightarrow> length r1 \<le> length r"
  by (auto simp: scan_int_part_def dropWhile_length_le split: if_splits)

lemma scan_frac_length: "scan_frac r = (fp, r2) \<Longrightarrow> length r2 \<le> length r"
  by (auto simp: scan_frac_def dropWhile_length_le split: list.splits if_splits)

lemma scan_exponent_length: "scan_exponent r = (ex, r3) \<Longrightarrow> length r3 \<le> length r"
  by (auto simp: scan_exponent_def Let_def dropWhile_length_le split: list.splits if_splits prod.splits)

lemma scan_number_body:
  assumes "scan_number s = Inr (v, t)"
  obtains c r ip r1 fp r2 ex r3 where "length (c # r) \<le> length s" "scan_int_part c r = (ip, r1)"
    "scan_frac r1 = (fp, r2)" "scan_exponent r2 = (ex, r3)" "t = r2 \<or> t = r3"
proof -
  obtain c0 r0 where s: "s = c0 # r0" using assms by (cases s) (auto simp: scan_number_def)
  define s1 where "s1 = (if c0 = CHR ''-'' then r0 else s)"
  have l: "length s1 \<le> length s" using s by (simp add: s1_def)
  obtain c r where s1: "s1 = c # r"
    using assms s by (cases s1) (auto simp: scan_number_def s1_def split: if_splits)
  obtain ip r1 where i: "scan_int_part c r = (ip, r1)" by (metis surj_pair)
  obtain fp r2 where f: "scan_frac r1 = (fp, r2)" by (metis surj_pair)
  obtain ex r3 where e: "scan_exponent r2 = (ex, r3)" by (metis surj_pair)
  have "t = r2 \<or> t = r3"
    using assms s s1 i f e by (auto simp: scan_number_def s1_def Let_def split: if_splits)
  then show ?thesis using that l s1 i f e by blast
qed

lemma scan_number_shorter: "scan_number s = Inr (v, t) \<Longrightarrow> length t < length s"
proof (erule scan_number_body)
  fix c r ip r1 fp r2 ex r3
  assume "length (c # r) \<le> length s" "scan_int_part c r = (ip, r1)" "scan_frac r1 = (fp, r2)"
    "scan_exponent r2 = (ex, r3)" "t = r2 \<or> t = r3"
  then show "length t < length s"
    using scan_int_part_length scan_frac_length scan_exponent_length by fastforce
qed

lemma drop_shorter: "take k s = c # w \<Longrightarrow> length (drop k s) < length s"
  by (cases s; cases k) auto

lemma scan_literal_shorter: "scan_literal s = Inr (v, t) \<Longrightarrow> length t < length s"
  unfolding scan_literal_def
  by (simp only: split: if_splits) (auto dest: drop_shorter scan_number_shorter)

lemma skip_ws_Cons_shorter: "skip_ws s = c # t \<Longrightarrow> length t < length s"
  using skip_ws_length [of s] by simp

lemma skip_ws_less: "length x < length (skip_ws y) \<Longrightarrow> length x < length y"
  using skip_ws_length [of y] by simp

lemma parse_shorter:
  assumes lit: "lit_consumes lit"
  shows "parse_with lit n m d s = Some (Inr (v, t)) \<Longrightarrow> length t < length s"
proof (induction n arbitrary: m d s v t)
  case (Suc n)
  have ih: "parse_with lit n m' d' s' = Some (Inr (v', t')) \<Longrightarrow> length t' < length s'" for m' d' s' v' t'
    by (rule Suc.IH)
  have lt: "lit s' = Inr (v', t') \<Longrightarrow> length t' < length s'" for s' v' t'
    using lit by (simp add: lit_consumes_def)
  show ?case
  proof (cases m)
    case PValue
    then show ?thesis using Suc.prems
      by (auto split: list.splits if_splits sum.splits prod.splits
               dest!: ih scan_string_shorter lt dest: skip_ws_Cons_shorter
               simp: less_SucI)
  next
    case (PArray acc)
    then show ?thesis using Suc.prems
      by (auto split: list.splits if_splits sum.splits prod.splits option.splits
               dest!: ih dest: skip_ws_Cons_shorter)
         (metis skip_ws_Cons_shorter skip_ws_length le_less_trans less_trans)
  next
    case (PObject acc)
    then show ?thesis using Suc.prems
      by (auto split: list.splits if_splits sum.splits prod.splits option.splits
               dest!: ih scan_string_shorter skip_ws_Cons_shorter skip_ws_less)
  qed
qed simp

lemma parse_fuel_enough:
  assumes lit: "lit_consumes lit"
  shows "parse_fuel m s \<le> n \<Longrightarrow> parse_with lit n m d s \<noteq> None"
proof (induction n arbitrary: m d s)
  case 0
  then show ?case by (simp add: parse_fuel_def split: pmode.splits)
next
  case (Suc n)
  have ih: "parse_with lit n m' d' s' = None \<Longrightarrow> n < parse_fuel m' s'" for m' d' s'
    using Suc.IH not_le by blast
  show ?case
  proof (cases m)
    case PValue
    then show ?thesis using Suc.prems
      by (auto simp: parse_fuel_def split: list.splits if_splits sum.splits prod.splits
               dest!: ih skip_ws_Cons_shorter skip_ws_less)
  next
    case (PArray acc)
    have v: "\<exists>y. parse_with lit n PValue d s = Some y"
      using Suc.IH [of PValue s d] Suc.prems PArray by (simp add: parse_fuel_def)
    have a: "2 * length u + 2 \<le> n \<Longrightarrow> \<exists>y. parse_with lit n (PArray a) d (skip_ws u) = Some y" for u a
      using Suc.IH [of "PArray a" "skip_ws u" d] skip_ws_length [of u] by (simp add: parse_fuel_def)
    show ?thesis using Suc.prems PArray v
      by (auto simp: parse_fuel_def split: list.splits if_splits sum.splits prod.splits option.splits
               dest!: parse_shorter [OF lit] skip_ws_Cons_shorter intro: a)
  next
    case (PObject acc)
    have pv: "2 * length u + 1 \<le> n \<Longrightarrow> \<exists>y. parse_with lit n PValue d (skip_ws u) = Some y" for u
      using Suc.IH [of PValue "skip_ws u" d] skip_ws_length [of u] by (simp add: parse_fuel_def)
    have po: "2 * length u + 2 \<le> n \<Longrightarrow> \<exists>y. parse_with lit n (PObject a) d (skip_ws u) = Some y" for u a
      using Suc.IH [of "PObject a" "skip_ws u" d] skip_ws_length [of u] by (simp add: parse_fuel_def)
    have pv': "parse_with lit n PValue d (skip_ws u) = None \<Longrightarrow> n < 2 * length u + 1" for u
      using pv [of u] by fastforce
    show ?thesis using Suc.prems PObject
      by (auto simp: parse_fuel_def split: list.splits if_splits sum.splits prod.splits option.splits
               dest!: pv' parse_shorter [OF lit] scan_string_shorter skip_ws_Cons_shorter skip_ws_less intro: pv po)
  qed
qed

text \<open>The fuel of \<open>loads\<close> is enough: on every input the scanner returns within it, so the
  \<open>None\<close> branch of \<open>loads\<close> is never taken.\<close>

lemma loads_fuel_enough: "parse (2 * length s + 2) PValue d (skip_ws s) \<noteq> None"
proof -
  have "parse_fuel PValue (skip_ws s) \<le> 2 * length s + 2"
    using skip_ws_length [of s] by (simp add: parse_fuel_def)
  moreover have "lit_consumes scan_literal" using scan_literal_shorter by (auto simp: lit_consumes_def)
  ultimately show ?thesis using parse_fuel_enough by blast
qed

lemma scan_number_text_shorter: "scan_number_text s = Inr (v, t) \<Longrightarrow> length t < length s"
proof -
  assume a: "scan_number_text s = Inr (v, t)"
  obtain c0 r0 where s: "s = c0 # r0" using a by (cases s) (auto simp: scan_number_text_def)
  define s1 where "s1 = (if c0 = CHR ''-'' then r0 else s)"
  have l: "length s1 \<le> length s" using s by (simp add: s1_def)
  obtain c r where s1: "s1 = c # r"
    using a s by (cases s1) (auto simp: scan_number_text_def s1_def split: if_splits)
  obtain ip r1 where i: "scan_int_part c r = (ip, r1)" by (metis surj_pair)
  obtain fp r2 where f: "scan_frac r1 = (fp, r2)" by (metis surj_pair)
  obtain ex r3 where e: "scan_exponent r2 = (ex, r3)" by (metis surj_pair)
  have "t = r2 \<or> t = r3"
    using a s s1 i f e by (auto simp: scan_number_text_def s1_def Let_def split: if_splits)
  then show ?thesis
    using l s1 scan_int_part_length [OF i] scan_frac_length [OF f] scan_exponent_length [OF e] by auto
qed

lemma scan_literal_text_consumes: "lit_consumes scan_literal_text"
  unfolding lit_consumes_def scan_literal_text_def
  by (simp only: split: if_splits) (auto dest: drop_shorter scan_number_text_shorter)

text \<open>The same holds of \<open>loads_key\<close>.\<close>

lemma loads_key_fuel_enough: "parse_with scan_literal_text (2 * length s + 2) PValue d (skip_ws s) \<noteq> None"
proof -
  have "parse_fuel PValue (skip_ws s) \<le> 2 * length s + 2"
    using skip_ws_length [of s] by (simp add: parse_fuel_def)
  then show ?thesis by (rule parse_fuel_enough [OF scan_literal_text_consumes])
qed

end
