(* ===== verification/PyInt.thy ===== *)
theory PyInt
  imports Json
begin

text \<open>
  CPython's \<open>int()\<close> of a \<open>str\<close> in base 10 (\<open>PyLong_FromUnicodeObject\<close>):
  surrounding whitespace is stripped, an optional sign is read, then decimal digits in
  groups separated by single underscores; anything else, and a string of more than 4300
  digits (\<open>sys.get_int_max_str_digits()\<close>), raises \<open>ValueError\<close>.  It is used by
  \<open>app/config.py\<close> on environment variables and by python-jose on claim values; the
  round trip with \<open>str()\<close> (\<open>int_repr\<close>) is proved here.
\<close>

section \<open>Definitions\<close>

text \<open>Digits with single underscores between them, at least one digit.\<close>

fun digit_groups_ok :: "pystr \<Rightarrow> bool" where
  "digit_groups_ok [] = False"
| "digit_groups_ok [c] = is_digit c"
| "digit_groups_ok (c # d # r) =
     (is_digit c \<and> (if d = CHR ''_'' then digit_groups_ok r else digit_groups_ok (d # r)))"

definition sign_prefix :: "pystr \<Rightarrow> int \<times> pystr" where
  "sign_prefix t =
     (case t of
        c # r \<Rightarrow> if c = CHR ''-'' then (-1, r) else if c = CHR ''+'' then (1, r) else (1, t)
      | [] \<Rightarrow> (1, t))"

definition py_int_str :: "pystr \<Rightarrow> exc + int" where
  "py_int_str s =
     (let (sg, u) = sign_prefix (py_strip s);
          ds = filter (\<lambda>c. c \<noteq> CHR ''_'') u
      in if \<not> digit_groups_ok u then Inl ValueError
         else if 4300 < length ds then Inl ValueError
         else Inr (sg * int (digits_value ds)))"

section \<open>Properties\<close>

lemma digit_groups_ok_digits:
  "xs \<noteq> [] \<Longrightarrow> \<forall>c \<in> set xs. is_digit c \<Longrightarrow> digit_groups_ok xs"
  by (induction xs rule: digit_groups_ok.induct) (auto simp: is_digit_def)

lemma digit_groups_ok_digit_hd: "digit_groups_ok (c # r) \<Longrightarrow> is_digit c"
  by (cases r) auto

lemma filter_underscore_digits:
  "\<forall>c \<in> set xs. is_digit c \<Longrightarrow> filter (\<lambda>c. c \<noteq> CHR ''_'') xs = xs"
  by (induction xs) (auto simp: is_digit_def)

lemma digit_not_space: "is_digit c \<Longrightarrow> \<not> py_isspace c"
  by (auto simp: is_digit_def py_isspace_def)

lemma int_repr_ends:
  "int_repr i \<noteq> [] \<and> \<not> py_isspace (hd (int_repr i)) \<and> \<not> py_isspace (last (int_repr i))"
proof -
  have ne: "nat_repr n \<noteq> []" for n by (rule nat_repr_nonempty)
  have d: "is_digit c" if "c \<in> set (nat_repr n)" for c n using nat_repr_digits that by blast
  have "\<not> py_isspace (hd (nat_repr n)) \<and> \<not> py_isspace (last (nat_repr n))" for n
    using d [of "hd (nat_repr n)" n] d [of "last (nat_repr n)" n] ne [of n]
    by (simp add: digit_not_space)
  then show ?thesis using ne
    by (simp add: int_repr_def py_isspace_def)
qed

lemma py_strip_int_repr: "py_strip (int_repr i) = int_repr i"
  using int_repr_ends [of i] by (simp add: py_strip_id)

lemma digits_nat_repr_len:
  "length (nat_repr n) \<le> 4300 \<Longrightarrow> digit_groups_ok (nat_repr n)
     \<and> filter (\<lambda>c. c \<noteq> CHR ''_'') (nat_repr n) = nat_repr n"
  using nat_repr_digits [of n] nat_repr_nonempty [of n]
  by (simp add: digit_groups_ok_digits filter_underscore_digits)

lemma nat_repr_not_sign: "hd (nat_repr n) \<noteq> CHR ''-'' \<and> hd (nat_repr n) \<noteq> CHR ''+''"
proof -
  have "is_digit (hd (nat_repr n))" using nat_repr_digits [of n] nat_repr_nonempty [of n] by simp
  then show ?thesis by (auto simp: is_digit_def)
qed

text \<open>\<open>int(str(i)) == i\<close> for every integer that \<open>str\<close> prints within the digit limit.\<close>

lemma py_int_str_int_repr:
  assumes "length (nat_repr (nat \<bar>i\<bar>)) \<le> 4300"
  shows "py_int_str (int_repr i) = Inr i"
proof (cases "i < 0")
  case True
  have sp: "sign_prefix (int_repr i) = (-1, nat_repr (nat (- i)))"
    using True by (simp add: sign_prefix_def int_repr_def)
  show ?thesis
    using True assms digits_nat_repr_len [of "nat (- i)"]
    by (simp add: py_int_str_def py_strip_int_repr sp digits_value_nat_repr)
next
  case False
  have sp: "sign_prefix (int_repr i) = (1, nat_repr (nat i))"
    using False nat_repr_not_sign [of "nat i"] nat_repr_nonempty [of "nat i"]
    by (cases "nat_repr (nat i)") (simp_all add: sign_prefix_def int_repr_def)
  show ?thesis
    using False assms digits_nat_repr_len [of "nat i"]
    by (simp add: py_int_str_def py_strip_int_repr sp digits_value_nat_repr)
qed

lemma py_int_str_Inl: "py_int_str s = Inl e \<Longrightarrow> e = ValueError"
  by (auto simp: py_int_str_def Let_def split: prod.splits if_splits)

lemma py_int_str_pad:
  "\<forall>c \<in> set a. py_isspace c \<Longrightarrow> \<forall>c \<in> set b. py_isspace c \<Longrightarrow>
   py_int_str (a @ s @ b) = py_int_str s"
  by (simp add: py_int_str_def py_strip_pad)

end
