(* ===== verification/Jose.thy ===== *)
theory Jose
  imports Base64 PyInt
begin

text \<open>
  python-jose (3.x), the library \<open>app/auth/jwt.py\<close> calls: \<open>jose.jwt.encode\<close> and
  \<open>jose.jwt.decode\<close> with the \<open>jws\<close>, \<open>jwk\<close> and claim-validation code beneath them, on
  the paths an HMAC algorithm takes.  The library is not part of the repository; this theory
  models it from its documented behaviour and is the interface the application code is
  verified against.

  \<^item> The keyed hash is a parameter \<open>hm :: hmac\<close>: \<open>hm alg key msg\<close> is
    \<open>hmac.new(key, msg, HASHES[alg]).digest()\<close>.  Nothing is assumed of it unless a lemma
    says so.
  \<^item> Time is an \<open>int\<close> of microseconds since the epoch (UTC); \<open>timegm(dt.utctimetuple())\<close>
    is floor division by \<open>10^6\<close>.  Each reading of \<open>datetime.utcnow()\<close> is an argument.
  \<^item> The recursion budget \<open>d\<close> of \<open>json.loads\<close> is an argument (see \<open>Json\<close>).
  \<^item> Key classes other than \<open>HMACKey\<close> (RSA, EC, AES, dir) are not modelled: constructing a
    key for such an algorithm is \<open>JWKError\<close>, which is what \<open>RSAKey\<close> and \<open>ECKey\<close> raise
    for a secret that is not a PEM key.  The application's algorithm is \<open>HS256\<close> by default.
\<close>

type_synonym hmac = "pystr \<Rightarrow> bytes \<Rightarrow> bytes \<Rightarrow> bytes"

text \<open>A constructed \<open>HMACKey\<close>: its algorithm and its \<open>prepared_key\<close>.\<close>

type_synonym hmac_key = "pystr \<times> bytes"

section \<open>Algorithms and keys (\<open>jose.constants\<close>, \<open>jose.jwk\<close>)\<close>

definition hmac_algs :: "pystr list" where
  "hmac_algs = [''HS256'', ''HS384'', ''HS512'']"

text \<open>\<open>ALGORITHMS.SUPPORTED\<close>: the HMAC, RSA and EC signature algorithms, \<open>dir\<close>, the
  JWE content encryption algorithms and the RSA and AES key wrap algorithms.\<close>

definition supported_algs :: "pystr list" where
  "supported_algs = hmac_algs @
     [''RS256'', ''RS384'', ''RS512'', ''ES256'', ''ES384'', ''ES512'', ''dir'',
      ''A128CBC-HS256'', ''A192CBC-HS384'', ''A256CBC-HS512'', ''A128GCM'', ''A192GCM'', ''A256GCM'',
      ''RSA1_5'', ''RSA-OAEP'', ''RSA-OAEP-256'', ''A128KW'', ''A192KW'', ''A256KW'']"

text \<open>The byte strings \<open>HMACKey.__init__\<close> refuses inside a secret (asymmetric key material).\<close>

definition invalid_hmac_markers :: "bytes list" where
  "invalid_hmac_markers = map ascii
     [''-----BEGIN PUBLIC KEY-----'', ''-----BEGIN RSA PUBLIC KEY-----'',
      ''-----BEGIN CERTIFICATE-----'', ''ssh-rsa'']"

text \<open>\<open>p in s\<close> on \<open>bytes\<close>: \<open>p\<close> occurs in \<open>s\<close> as a contiguous block.\<close>

fun bytes_contains :: "bytes \<Rightarrow> bytes \<Rightarrow> bool" where
  "bytes_contains p [] = (p = [])"
| "bytes_contains p (b # bs) = (take (length p) (b # bs) = p \<or> bytes_contains p bs)"

text \<open>\<open>HMACKey(key, alg)\<close> for a \<open>str\<close> key: UTF-8 encode it, refuse key material.\<close>

definition hmac_prepare :: "pystr \<Rightarrow> exc + bytes" where
  "hmac_prepare k =
     (let kb = utf8_encode k
      in if list_ex (\<lambda>m. bytes_contains m kb) invalid_hmac_markers then Inl JWKError else Inr kb)"

definition hmac_str_key :: "pystr \<Rightarrow> pystr \<Rightarrow> exc + hmac_key" where
  "hmac_str_key alg k = (case hmac_prepare k of Inl e \<Rightarrow> Inl e | Inr kb \<Rightarrow> Inr (alg, kb))"

text \<open>\<open>HMACKey._process_jwk\<close>: a JWK dictionary of type \<open>oct\<close> whose \<open>k\<close> is the
  base64url-encoded secret.  A \<open>k\<close> that is not a \<open>str\<close> has no \<open>encode\<close>.\<close>

definition hmac_jwk_key :: "pystr \<Rightarrow> (pystr \<times> json) list \<Rightarrow> exc + hmac_key" where
  "hmac_jwk_key alg kvs =
     (if dict_get kvs ''kty'' \<noteq> Some (JStr ''oct'') then Inl JWKError
      else (case dict_get kvs ''k'' of
              Some (JStr k) \<Rightarrow>
                (case base64url_decode (utf8_encode k) of Inl e \<Rightarrow> Inl e | Inr kb \<Rightarrow> Inr (alg, kb))
            | _ \<Rightarrow> Inl AttributeError))"

text \<open>Python truth value of a JSON value.\<close>

fun py_truthy :: "json \<Rightarrow> bool" where
  "py_truthy JNull = False"
| "py_truthy (JBool b) = b"
| "py_truthy (JInt i) = (i \<noteq> 0)"
| "py_truthy (JFloat (FloatDec m e)) = (m \<noteq> 0)"
| "py_truthy (JFloat _) = True"
| "py_truthy (JStr s) = (s \<noteq> [])"
| "py_truthy (JArr xs) = (xs \<noteq> [])"
| "py_truthy (JObj kvs) = (kvs \<noteq> [])"

text \<open>
  \<open>jwk.construct(key_data, algorithm)\<close> with the algorithm given (it is always given
  here, so a dictionary's own \<open>alg\<close> is not consulted): an HMAC algorithm makes an
  \<open>HMACKey\<close>, which takes a dictionary as a JWK (\<open>_process_jwk\<close>) and a \<open>str\<close> as the
  secret, and refuses any other value (\<open>Expecting a string- or bytes-formatted key\<close>).
\<close>

fun construct_key :: "json \<Rightarrow> pystr \<Rightarrow> exc + hmac_key" where
  "construct_key (JObj kvs) alg = (if alg \<in> set hmac_algs then hmac_jwk_key alg kvs else Inl JWKError)"
| "construct_key (JStr k) alg = (if alg \<in> set hmac_algs then hmac_str_key alg k else Inl JWKError)"
| "construct_key _ alg = Inl JWKError"

text \<open>\<open>for key in keys\<close> over a JSON value: a list gives its items, a dictionary its keys,
  a string its characters; anything else is not iterable.\<close>

fun iter_json :: "json \<Rightarrow> exc + json list" where
  "iter_json (JArr xs) = Inr xs"
| "iter_json (JObj kvs) = Inr (map (\<lambda>kv. JStr (fst kv)) kvs)"
| "iter_json (JStr s) = Inr (map (\<lambda>c. JStr [c]) s)"
| "iter_json _ = Inl TypeError"

text \<open>
  \<open>jws._get_keys(key)\<close>: the verification key is first read as JSON with
  \<open>parse_int=str, parse_float=str\<close> (\<open>loads_key\<close>: numbers stay text; any exception is
  ignored and the string kept).  A JWK set gives its \<open>keys\<close>, a single JWK itself, another
  non-empty dictionary its values; a list gives its items; any other value, the string
  included, is the one candidate.  \<open>true\<close>, \<open>false\<close>, \<open>null\<close>, \<open>NaN\<close> and
  \<open>Infinity\<close> are read as Python constants, which are no key.
\<close>

definition get_keys :: "nat \<Rightarrow> pystr \<Rightarrow> exc + json list" where
  "get_keys d key =
     (case loads_key d key of
        Inl _ \<Rightarrow> Inr [JStr key]
      | Inr (JObj kvs) \<Rightarrow>
          (case dict_get kvs ''keys'' of
             Some ks \<Rightarrow> iter_json ks
           | None \<Rightarrow>
               if dict_get kvs ''kty'' \<noteq> None then Inr [JObj kvs]
               else if kvs \<noteq> [] then Inr (map snd kvs) else Inr [JObj kvs])
      | Inr (JArr xs) \<Rightarrow> Inr xs
      | Inr v \<Rightarrow> Inr [v])"

text \<open>\<open>jws._sig_matches_keys\<close>: construct each candidate (outside the \<open>try\<close>) and compare
  the MAC of the signing input with the signature (\<open>hmac.compare_digest\<close>).\<close>

fun sig_matches_keys :: "hmac \<Rightarrow> pystr \<Rightarrow> bytes \<Rightarrow> bytes \<Rightarrow> json list \<Rightarrow> exc + bool" where
  "sig_matches_keys hm alg si sg [] = Inr False"
| "sig_matches_keys hm alg si sg (k # ks) =
     (case construct_key k alg of
        Inl e \<Rightarrow> Inl e
      | Inr (ka, kb) \<Rightarrow> if hm ka kb si = sg then Inr True else sig_matches_keys hm alg si sg ks)"

section \<open>Signing (\<open>jws.sign\<close>, \<open>jwt.encode\<close>)\<close>

definition dot :: byte where
  "dot = 46"

text \<open>\<open>_encode_header\<close>: \<open>{"typ": "JWT", "alg": alg}\<close> with sorted keys, compact separators.\<close>

definition encode_header :: "pystr \<Rightarrow> bytes" where
  "encode_header alg =
     base64url_encode (utf8_encode (dumps True (JObj [(''typ'', JStr ''JWT''), (''alg'', JStr alg)])))"

text \<open>Values of the claim dictionary the application builds: strings, integers and aware
  UTC datetimes (microseconds since the epoch).\<close>

datatype claimval = CStr pystr | CInt int | CTime int

definition timegm_utc :: "int \<Rightarrow> int" where
  "timegm_utc t = t div 1000000"

text \<open>\<open>json.dumps\<close> of the claim values: a \<open>datetime\<close> is not serialisable (\<open>TypeError\<close>,
  which \<open>_encode_payload\<close> does not catch).\<close>

fun claims_json :: "(pystr \<times> claimval) list \<Rightarrow> exc + (pystr \<times> json) list" where
  "claims_json [] = Inr []"
| "claims_json ((k, v) # cs) =
     (case v of
        CTime _ \<Rightarrow> Inl TypeError
      | CStr s \<Rightarrow> map_sum id (Cons (k, JStr s)) (claims_json cs)
      | CInt i \<Rightarrow> map_sum id (Cons (k, JInt i)) (claims_json cs))"

text \<open>
  \<open>jws.sign(payload, key, algorithm)\<close>: check the algorithm, encode header and payload,
  construct the key, MAC the signing input \<open>header.payload\<close>, append the encoded signature
  and decode the ASCII result.
\<close>

definition jws_sign :: "hmac \<Rightarrow> (pystr \<times> claimval) list \<Rightarrow> pystr \<Rightarrow> pystr \<Rightarrow> exc + pystr" where
  "jws_sign hm claims key alg =
     (if alg \<notin> set supported_algs then Inl JWSError
      else
        (let eh = encode_header alg in
         case claims_json claims of
           Inl e \<Rightarrow> Inl e
         | Inr cl \<Rightarrow>
             (let si = eh @ dot # base64url_encode (utf8_encode (dumps False (JObj cl))) in
              case construct_key (JStr key) alg of
                Inl e \<Rightarrow> Inl JWSError
              | Inr (ka, kb) \<Rightarrow> Inr (map char_of_byte (si @ dot # base64url_encode (hm ka kb si))))))"

text \<open>\<open>jwt.encode\<close>: the \<open>datetime\<close> values of \<open>exp\<close>, \<open>iat\<close> and \<open>nbf\<close> become
  \<open>timegm(v.utctimetuple())\<close> in place, then \<open>jws.sign\<close>.\<close>

fun time_claim :: "pystr \<times> claimval \<Rightarrow> pystr \<times> claimval" where
  "time_claim (k, CTime t) =
     (if k \<in> set [''exp'', ''iat'', ''nbf''] then (k, CInt (timegm_utc t)) else (k, CTime t))"
| "time_claim kv = kv"

definition jwt_encode :: "hmac \<Rightarrow> (pystr \<times> claimval) list \<Rightarrow> pystr \<Rightarrow> pystr \<Rightarrow> exc + pystr" where
  "jwt_encode hm claims key alg = jws_sign hm (map time_claim claims) key alg"

section \<open>Verification (\<open>jws._load\<close>, \<open>jws.verify\<close>)\<close>

text \<open>\<open>bs.rsplit(b".", 1)\<close> and \<open>bs.split(b".", 1)\<close> unpacked into two parts
  (\<open>None\<close>: the unpacking raises \<open>ValueError\<close>).\<close>

definition split_last_dot :: "bytes \<Rightarrow> (bytes \<times> bytes) option" where
  "split_last_dot bs =
     (let r = rev bs in
      case dropWhile (\<lambda>b. b \<noteq> dot) r of
        [] \<Rightarrow> None
      | _ # l \<Rightarrow> Some (rev l, rev (takeWhile (\<lambda>b. b \<noteq> dot) r)))"

definition split_first_dot :: "bytes \<Rightarrow> (bytes \<times> bytes) option" where
  "split_first_dot bs =
     (case dropWhile (\<lambda>b. b \<noteq> dot) bs of
        [] \<Rightarrow> None
      | _ # r \<Rightarrow> Some (takeWhile (\<lambda>b. b \<noteq> dot) bs, r))"

text \<open>
  \<open>jws._load(token)\<close>: split off the signature at the last dot and the header at the first
  dot of the rest, decode and parse the header (a \<open>ValueError\<close>, \<open>binascii.Error\<close> and
  \<open>UnicodeDecodeError\<close> included, becomes \<open>JWSError\<close>; \<open>RecursionError\<close> is not a
  \<open>ValueError\<close> and propagates), require a JSON object, decode payload and signature.
\<close>

definition jws_load :: "nat \<Rightarrow> pystr \<Rightarrow> exc + ((pystr \<times> json) list \<times> bytes \<times> bytes \<times> bytes)" where
  "jws_load d token =
     (case split_last_dot (utf8_encode token) of
        None \<Rightarrow> Inl JWSError
      | Some (si, cs) \<Rightarrow>
          (case split_first_dot si of
             None \<Rightarrow> Inl JWSError
           | Some (hs, ps) \<Rightarrow>
               (case base64url_decode hs of
                  Inl _ \<Rightarrow> Inl JWSError
                | Inr hb \<Rightarrow>
                    (case utf8_decode hb of
                       None \<Rightarrow> Inl JWSError
                     | Some htxt \<Rightarrow>
                         (case loads d htxt of
                            Inl e \<Rightarrow> Inl (if is_value_error e then JWSError else e)
                          | Inr (JObj h) \<Rightarrow>
                              (case base64url_decode ps of
                                 Inl _ \<Rightarrow> Inl JWSError
                               | Inr p \<Rightarrow>
                                   (case base64url_decode cs of
                                      Inl _ \<Rightarrow> Inl JWSError
                                    | Inr sg \<Rightarrow> Inr (h, p, si, sg)))
                          | Inr _ \<Rightarrow> Inl JWSError)))))"

text \<open>
  \<open>jws._verify_signature\<close>: the header's \<open>alg\<close> must be present, truthy and one of the
  caller's \<open>algorithms\<close> (only a \<open>str\<close> equals a member); then some candidate key must
  reproduce the signature.  A \<open>JWKError\<close> or \<open>TypeError\<close> of key construction is not a
  \<open>JWSError\<close> and propagates.
\<close>

definition verify_signature ::
  "hmac \<Rightarrow> nat \<Rightarrow> bytes \<Rightarrow> (pystr \<times> json) list \<Rightarrow> bytes \<Rightarrow> pystr \<Rightarrow> pystr list \<Rightarrow> exc + unit" where
  "verify_signature hm d si header sg key algorithms =
     (case dict_get header ''alg'' of
        None \<Rightarrow> Inl JWSError
      | Some a \<Rightarrow>
          if \<not> py_truthy a then Inl JWSError
          else (case a of
                  JStr alg \<Rightarrow>
                    if alg \<notin> set algorithms then Inl JWSError
                    else (case get_keys d key of
                            Inl e \<Rightarrow> Inl e
                          | Inr ks \<Rightarrow>
                              (case sig_matches_keys hm alg si sg ks of
                                 Inl e \<Rightarrow> Inl e
                               | Inr True \<Rightarrow> Inr ()
                               | Inr False \<Rightarrow> Inl JWSError))
                | _ \<Rightarrow> Inl JWSError))"

definition jws_verify :: "hmac \<Rightarrow> nat \<Rightarrow> pystr \<Rightarrow> pystr \<Rightarrow> pystr list \<Rightarrow> exc + bytes" where
  "jws_verify hm d token key algorithms =
     (case jws_load d token of
        Inl e \<Rightarrow> Inl e
      | Inr (h, p, si, sg) \<Rightarrow> ok_then (verify_signature hm d si h sg key algorithms) (Inr p))"

section \<open>Claims (\<open>jwt._validate_claims\<close> with the default options)\<close>

text \<open>
  \<open>int(v)\<close> of a JSON value.  A float is read as its exact decimal value and truncated;
  Python first rounds the literal to binary64, so the two differ only on float claims, which
  the application never writes.
\<close>

definition float_int :: "pyfloat \<Rightarrow> exc + int" where
  "float_int f =
     (case f of
        FloatDec m e \<Rightarrow>
          Inr (if 0 \<le> e then m * 10 ^ nat e else sgn m * (\<bar>m\<bar> div 10 ^ nat (- e)))
      | FloatInf \<Rightarrow> Inl OverflowError
      | FloatNegInf \<Rightarrow> Inl OverflowError
      | FloatNaN \<Rightarrow> Inl ValueError)"

fun py_int :: "json \<Rightarrow> exc + int" where
  "py_int (JInt i) = Inr i"
| "py_int (JBool b) = Inr (if b then 1 else 0)"
| "py_int (JFloat f) = float_int f"
| "py_int (JStr s) = py_int_str s"
| "py_int _ = Inl TypeError"

text \<open>\<open>try: int(v) except ValueError: raise JWTClaimsError\<close>.\<close>

definition claim_int :: "json \<Rightarrow> exc + int" where
  "claim_int v = (case py_int v of Inl e \<Rightarrow> Inl (if is_value_error e then JWTClaimsError else e) | r \<Rightarrow> r)"

definition validate_iat :: "(pystr \<times> json) list \<Rightarrow> exc + unit" where
  "validate_iat cl =
     (case dict_get cl ''iat'' of
        None \<Rightarrow> Inr ()
      | Some v \<Rightarrow> (case claim_int v of Inl e \<Rightarrow> Inl e | Inr _ \<Rightarrow> Inr ()))"

text \<open>\<open>_validate_nbf\<close> and \<open>_validate_exp\<close> each read the clock; leeway is 0.\<close>

definition validate_nbf :: "int \<Rightarrow> (pystr \<times> json) list \<Rightarrow> exc + unit" where
  "validate_nbf t cl =
     (case dict_get cl ''nbf'' of
        None \<Rightarrow> Inr ()
      | Some v \<Rightarrow>
          (case claim_int v of
             Inl e \<Rightarrow> Inl e
           | Inr nbf \<Rightarrow> if timegm_utc t < nbf then Inl JWTClaimsError else Inr ()))"

definition validate_exp :: "int \<Rightarrow> (pystr \<times> json) list \<Rightarrow> exc + unit" where
  "validate_exp t cl =
     (case dict_get cl ''exp'' of
        None \<Rightarrow> Inr ()
      | Some v \<Rightarrow>
          (case claim_int v of
             Inl e \<Rightarrow> Inl e
           | Inr exp \<Rightarrow> if exp < timegm_utc t then Inl ExpiredSignatureError else Inr ()))"

text \<open>\<open>_validate_aud\<close> with \<open>audience=None\<close>: every branch that sees an \<open>aud\<close> claim
  raises (a malformed one \<open>Invalid claim format\<close>, a well-formed one \<open>Invalid audience\<close>,
  since \<open>None\<close> is in no list of strings).\<close>

definition validate_aud :: "(pystr \<times> json) list \<Rightarrow> exc + unit" where
  "validate_aud cl = (case dict_get cl ''aud'' of None \<Rightarrow> Inr () | Some _ \<Rightarrow> Inl JWTClaimsError)"

text \<open>\<open>_validate_sub\<close> and \<open>_validate_jti\<close>: present claims must be strings.
  (\<open>_validate_iss\<close> checks nothing when \<open>issuer\<close> is \<open>None\<close>.)\<close>

definition validate_str_claim :: "pystr \<Rightarrow> (pystr \<times> json) list \<Rightarrow> exc + unit" where
  "validate_str_claim k cl =
     (case dict_get cl k of None \<Rightarrow> Inr () | Some (JStr _) \<Rightarrow> Inr () | Some _ \<Rightarrow> Inl JWTClaimsError)"

text \<open>\<open>_validate_at_hash\<close> without an \<open>access_token\<close>: a present \<open>at_hash\<close> is refused.\<close>

definition validate_at_hash :: "(pystr \<times> json) list \<Rightarrow> exc + unit" where
  "validate_at_hash cl = (case dict_get cl ''at_hash'' of None \<Rightarrow> Inr () | Some _ \<Rightarrow> Inl JWTClaimsError)"

definition validate_claims :: "int \<Rightarrow> int \<Rightarrow> (pystr \<times> json) list \<Rightarrow> exc + unit" where
  "validate_claims t_nbf t_exp cl =
     ok_then (validate_iat cl) (
     ok_then (validate_nbf t_nbf cl) (
     ok_then (validate_exp t_exp cl) (
     ok_then (validate_aud cl) (
     ok_then (validate_str_claim ''sub'' cl) (
     ok_then (validate_str_claim ''jti'' cl) (
     validate_at_hash cl))))))"

text \<open>
  \<open>jwt.decode(token, key, algorithms)\<close>: a \<open>JWSError\<close> becomes \<open>JWTError\<close>; the payload
  is UTF-8 decoded and parsed (a \<open>ValueError\<close> becomes \<open>JWTError\<close>), must be an object, and
  its claims are validated.  (\<open>get_unverified_header\<close> re-runs \<open>_load\<close> on the token that
  has just loaded; its result is not used on these paths.)
\<close>

definition jwt_decode ::
  "hmac \<Rightarrow> nat \<Rightarrow> int \<Rightarrow> int \<Rightarrow> pystr \<Rightarrow> pystr \<Rightarrow> pystr list \<Rightarrow> exc + (pystr \<times> json) list" where
  "jwt_decode hm d t_nbf t_exp token key algorithms =
     (case jws_verify hm d token key algorithms of
        Inl e \<Rightarrow> Inl (if e = JWSError then JWTError else e)
      | Inr p \<Rightarrow>
          (case utf8_decode p of
             None \<Rightarrow> Inl JWTError
           | Some ptxt \<Rightarrow>
               (case loads d ptxt of
                  Inl e \<Rightarrow> Inl (if is_value_error e then JWTError else e)
                | Inr (JObj cl) \<Rightarrow> ok_then (validate_claims t_nbf t_exp cl) (Inr cl)
                | Inr _ \<Rightarrow> Inl JWTError)))"


section \<open>Properties\<close>

subsection \<open>Shape of a signed token\<close>

lemma b64_code_ascii: "b64_code n < 128 \<and> b64_code n \<noteq> 46"
  by (simp add: b64_code_def) presburger

lemma b64url_char_ascii:
  "unat (urlsafe_encode_translate (b64_char v)) < 128 \<and> urlsafe_encode_translate (b64_char v) \<noteq> dot"
proof -
  have c: "b64_code (unat v) < 128" "b64_code (unat v) \<noteq> 46" using b64_code_ascii by auto
  then have "b64_char v \<noteq> dot" by (auto simp: dot_def word_unat_eq_iff)
  then show ?thesis using c
    by (auto simp: urlsafe_encode_translate_def dot_def)
qed

lemma base64url_encode_ascii:
  "b \<in> set (base64url_encode bs) \<Longrightarrow> unat b < 128 \<and> b \<noteq> dot"
  by (auto simp: base64url_encode_eq b64url_char_ascii)

lemma utf8_encode_ascii_bytes:
  "\<forall>b \<in> set bs. unat b < 128 \<Longrightarrow> utf8_encode (map char_of_byte bs) = bs"
  by (induction bs) (simp_all add: char_of_byte_def Let_def)

lemma split_last_dot_append:
  "dot \<notin> set b \<Longrightarrow> split_last_dot (a @ dot # b) = Some (a, b)"
proof -
  assume b: "dot \<notin> set b"
  then have nb: "\<forall>x \<in> set (rev b). x \<noteq> dot" by auto
  then have "dropWhile (\<lambda>x. x \<noteq> dot) (rev b @ dot # rev a) = dot # rev a"
    by (simp add: dropWhile_append_all)
  moreover have "takeWhile (\<lambda>x. x \<noteq> dot) (rev b @ dot # rev a) = rev b"
    using nb by (subst takeWhile_append2) auto
  ultimately show ?thesis by (simp add: split_last_dot_def)
qed

lemma split_first_dot_append:
  assumes "dot \<notin> set a"
  shows "split_first_dot (a @ dot # b) = Some (a, b)"
proof -
  have na: "\<forall>x \<in> set a. x \<noteq> dot" using assms by auto
  then show ?thesis by (simp add: split_first_dot_def dropWhile_append_all)
qed

lemma header_sorted:
  "json_sort (JObj [(''typ'', JStr ''JWT''), (''alg'', JStr alg)]) = JObj [(''alg'', JStr alg), (''typ'', JStr ''JWT'')]"
  by code_simp

lemma loads_header:
  "1 \<le> d \<Longrightarrow> loads d (dumps True (JObj [(''typ'', JStr ''JWT''), (''alg'', JStr alg)]))
     = Inr (JObj [(''alg'', JStr alg), (''typ'', JStr ''JWT'')])"
  unfolding dumps_def if_True header_sorted by (rule loads_dumps_plain) simp_all

lemma construct_key_str_ok:
  "construct_key (JStr key) alg = Inr (ka, kb) \<Longrightarrow> alg \<in> set hmac_algs \<and> ka = alg"
  by (auto simp: hmac_str_key_def split: if_splits sum.splits)

lemma hmac_alg_supported: "alg \<in> set hmac_algs \<Longrightarrow> alg \<in> set supported_algs"
  by (auto simp: hmac_algs_def supported_algs_def)

lemma hmac_alg_nonempty: "alg \<in> set hmac_algs \<Longrightarrow> alg \<noteq> []"
  by (auto simp: hmac_algs_def)

lemma jws_sign_ok:
  assumes "jws_sign hm claims key alg = Inr tok" and "claims_json claims = Inr cl"
  obtains kb where "construct_key (JStr key) alg = Inr (alg, kb)"
    and "tok = map char_of_byte
           ((encode_header alg @ dot # base64url_encode (utf8_encode (dumps False (JObj cl))))
            @ dot # base64url_encode (hm alg kb (encode_header alg @ dot # base64url_encode (utf8_encode (dumps False (JObj cl))))))"
proof -
  obtain ka kb where ck: "construct_key (JStr key) alg = Inr (ka, kb)"
    using assms by (auto simp: jws_sign_def Let_def split: if_splits sum.splits)
  then have "ka = alg" using construct_key_str_ok by blast
  then show ?thesis using that ck assms by (simp add: jws_sign_def Let_def split: if_splits)
qed

lemma ascii_token_bytes:
  "\<forall>b \<in> set (encode_header alg @ dot # ep @ dot # base64url_encode sg). unat b < 128"
  if "\<forall>b \<in> set ep. unat b < 128"
  using that base64url_encode_ascii by (auto simp: encode_header_def dot_def)

lemma jws_load_sign:
  assumes "jws_sign hm claims key alg = Inr tok" and "claims_json claims = Inr cl" and "1 \<le> d"
  obtains kb where "construct_key (JStr key) alg = Inr (alg, kb)"
    and "jws_load d tok = Inr ([(''alg'', JStr alg), (''typ'', JStr ''JWT'')],
           utf8_encode (dumps False (JObj cl)),
           encode_header alg @ dot # base64url_encode (utf8_encode (dumps False (JObj cl))),
           hm alg kb (encode_header alg @ dot # base64url_encode (utf8_encode (dumps False (JObj cl)))))"
proof -
  define p where "p = utf8_encode (dumps False (JObj cl))"
  define si where "si = encode_header alg @ dot # base64url_encode p"
  obtain kb where ck: "construct_key (JStr key) alg = Inr (alg, kb)"
    and tok: "tok = map char_of_byte (si @ dot # base64url_encode (hm alg kb si))"
    using jws_sign_ok [OF assms(1,2)] unfolding p_def si_def by blast
  have asc: "\<forall>b \<in> set (si @ dot # base64url_encode (hm alg kb si)). unat b < 128"
    using ascii_token_bytes [of "base64url_encode p" alg "hm alg kb si"] base64url_encode_ascii
    by (simp add: si_def)
  have nd: "dot \<notin> set (base64url_encode (hm alg kb si))" "dot \<notin> set (encode_header alg)"
    using base64url_encode_ascii by (auto simp: encode_header_def)
  have "utf8_encode tok = si @ dot # base64url_encode (hm alg kb si)"
    using asc unfolding tok by (rule utf8_encode_ascii_bytes)
  then have sl: "split_last_dot (utf8_encode tok) = Some (si, base64url_encode (hm alg kb si))"
    using nd(1) by (simp add: split_last_dot_append)
  have sf: "split_first_dot si = Some (encode_header alg, base64url_encode p)"
    using nd(2) by (simp add: si_def split_first_dot_append)
  have hd: "base64url_decode (encode_header alg)
            = Inr (utf8_encode (dumps True (JObj [(''typ'', JStr ''JWT''), (''alg'', JStr alg)])))"
    by (simp add: encode_header_def base64url_roundtrip)
  have "jws_load d tok = Inr ([(''alg'', JStr alg), (''typ'', JStr ''JWT'')], p, si, hm alg kb si)"
    using assms(3) by (simp add: jws_load_def sl sf hd loads_header base64url_roundtrip)
  then show ?thesis using that ck unfolding p_def si_def by blast
qed

lemma jwt_decode_sign:
  assumes "jws_sign hm claims key alg = Inr tok" and "claims_json claims = Inr cl"
    and "json_wf (JObj cl)" and "json_depth (JObj cl) \<le> d" and "1 \<le> d"
    and "alg \<in> set algorithms" and "get_keys d key = Inr (JStr key # ks)"
  shows "jwt_decode hm d t_nbf t_exp tok key algorithms = ok_then (validate_claims t_nbf t_exp cl) (Inr cl)"
proof -
  define p where "p = utf8_encode (dumps False (JObj cl))"
  define si where "si = encode_header alg @ dot # base64url_encode p"
  obtain kb where ck: "construct_key (JStr key) alg = Inr (alg, kb)"
    and ld: "jws_load d tok = Inr ([(''alg'', JStr alg), (''typ'', JStr ''JWT'')], p, si, hm alg kb si)"
    using jws_load_sign [OF assms(1,2,5)] unfolding p_def si_def by blast
  have "alg \<in> set hmac_algs" using ck construct_key_str_ok by blast
  then have "verify_signature hm d si [(''alg'', JStr alg), (''typ'', JStr ''JWT'')] (hm alg kb si) key algorithms = Inr ()"
    using assms(6,7) ck by (simp add: verify_signature_def dict_get_def hmac_alg_nonempty)
  then have "jws_verify hm d tok key algorithms = Inr p"
    by (simp add: jws_verify_def ld)
  moreover have "loads d (dumps False (JObj cl)) = Inr (JObj cl)"
    unfolding dumps_def if_False using assms(3,4) by (rule loads_dumps_plain)
  ultimately show ?thesis by (simp add: jwt_decode_def p_def)
qed


lemma get_keys_plain: "isl (loads_key d key) \<Longrightarrow> get_keys d key = Inr [JStr key]"
  by (cases "loads_key d key") (simp_all add: get_keys_def)


subsection \<open>Decoding a token\<close>

lemma jws_verify_Inr:
  assumes "jws_verify hm d tok key algorithms = Inr p" and "get_keys d key = Inr [JStr key]"
  obtains h si sg alg kb where "jws_load d tok = Inr (h, p, si, sg)"
    and "dict_get h ''alg'' = Some (JStr alg)" and "alg \<in> set algorithms"
    and "hmac_prepare key = Inr kb" and "sg = hm alg kb si"
proof -
  obtain h si sg where ld: "jws_load d tok = Inr (h, p, si, sg)"
    and vs: "verify_signature hm d si h sg key algorithms = Inr ()"
    using assms(1) by (auto simp: jws_verify_def split: sum.splits prod.splits)
  obtain alg where a: "dict_get h ''alg'' = Some (JStr alg)" and al: "alg \<in> set algorithms"
    and m: "sig_matches_keys hm alg si sg [JStr key] = Inr True"
    using vs assms(2) by (auto simp: verify_signature_def split: option.splits if_splits json.splits sum.splits bool.splits)
  obtain kb where "hmac_prepare key = Inr kb" and "sg = hm alg kb si"
    using m by (auto simp: hmac_str_key_def split: if_splits sum.splits)
  then show ?thesis using that ld a al by blast
qed

lemma jwt_decode_Inr:
  assumes "jwt_decode hm d t_nbf t_exp tok key algorithms = Inr cl"
  shows "\<exists>p. jws_verify hm d tok key algorithms = Inr p" and "validate_claims t_nbf t_exp cl = Inr ()"
  using assms
  by (auto simp: jwt_decode_def split: sum.splits option.splits json.splits if_splits)

lemma jwt_decode_mac_mismatch:
  assumes "jws_load d tok = Inr (h, p, si, sg)" and "dict_get h ''alg'' = Some (JStr alg)"
    and "alg \<in> set algorithms" and "alg \<in> set hmac_algs"
    and "get_keys d key = Inr [JStr k]" and "hmac_prepare k = Inr kb" and "hm alg kb si \<noteq> sg"
  shows "jwt_decode hm d t_nbf t_exp tok key algorithms = Inl JWTError"
proof -
  have "verify_signature hm d si h sg key algorithms = Inl JWSError"
    using assms(2-7) hmac_alg_nonempty [OF assms(4)]
    by (simp add: verify_signature_def hmac_str_key_def)
  then show ?thesis using assms(1) by (simp add: jwt_decode_def jws_verify_def)
qed

lemma jws_load_Inr:
  assumes "jws_load d tok = Inr (h, p, si, sg)"
  shows "\<exists>cs. split_last_dot (utf8_encode tok) = Some (si, cs) \<and> base64url_decode cs = Inr sg"
  using assms by (auto simp: jws_load_def split: option.splits prod.splits sum.splits json.splits if_splits)

lemma split_last_dot_Some:
  assumes "split_last_dot bs = Some (a, b)"
  shows "bs = a @ dot # b \<and> dot \<notin> set b"
proof -
  obtain x l where d: "dropWhile (\<lambda>x. x \<noteq> dot) (rev bs) = x # l"
    and a: "a = rev l" and b: "b = rev (takeWhile (\<lambda>x. x \<noteq> dot) (rev bs))"
    using assms by (auto simp: split_last_dot_def Let_def split: list.splits)
  have x: "x = dot" using d hd_dropWhile [of "\<lambda>x. x \<noteq> dot" "rev bs"] by fastforce
  have "rev bs = takeWhile (\<lambda>x. x \<noteq> dot) (rev bs) @ x # l" using d takeWhile_dropWhile_id by metis
  then have "bs = a @ dot # b" using a b x by (metis rev_append rev_rev_ident rev.simps(2) append_assoc append_Cons append_Nil)
  moreover have "dot \<notin> set b" using b by (auto dest: set_takeWhileD)
  ultimately show ?thesis by simp
qed

lemma jws_load_segment_cong:
  assumes "split_last_dot (utf8_encode t1) = Some (si, c1)" and "split_last_dot (utf8_encode t2) = Some (si, c2)"
    and "base64url_decode c1 = base64url_decode c2"
  shows "jws_load d t1 = jws_load d t2"
proof -
  obtain r where r1: "base64url_decode c1 = r" by simp
  then have r2: "base64url_decode c2 = r" using assms(3) by simp
  show ?thesis unfolding jws_load_def assms(1,2) option.case prod.case unfolding r1 r2 by (rule refl)
qed

lemma jws_load_signature_cong:
  assumes "\<forall>b \<in> set (si @ es @ es'). unat b < 128" and "dot \<notin> set es" and "dot \<notin> set es'"
    and "base64url_decode es = base64url_decode es'"
  shows "jws_load d (map char_of_byte (si @ dot # es)) = jws_load d (map char_of_byte (si @ dot # es'))"
proof -
  have "utf8_encode (map char_of_byte (si @ dot # es)) = si @ dot # es"
    by (rule utf8_encode_ascii_bytes) (use assms(1) in \<open>auto simp: dot_def\<close>)
  moreover have "utf8_encode (map char_of_byte (si @ dot # es')) = si @ dot # es'"
    by (rule utf8_encode_ascii_bytes) (use assms(1) in \<open>auto simp: dot_def\<close>)
  ultimately show ?thesis
    using split_last_dot_append [OF assms(2)] split_last_dot_append [OF assms(3)] assms(4)
    by (metis jws_load_segment_cong)
qed

lemma split_last_dot_suffix:
  assumes "dot \<notin> set b"
  shows "split_last_dot (a @ b) = map_option (\<lambda>(si, cs). (si, cs @ b)) (split_last_dot a)"
proof -
  have nb: "\<forall>x \<in> set (rev b). x \<noteq> dot" using assms by auto
  then have d: "dropWhile (\<lambda>x. x \<noteq> dot) (rev b @ rev a) = dropWhile (\<lambda>x. x \<noteq> dot) (rev a)"
    by (simp add: dropWhile_append_all)
  have t: "takeWhile (\<lambda>x. x \<noteq> dot) (rev b @ rev a) = rev b @ takeWhile (\<lambda>x. x \<noteq> dot) (rev a)"
    using nb by (subst takeWhile_append2) auto
  show ?thesis
  proof (cases "dropWhile (\<lambda>x. x \<noteq> dot) (rev a)")
    case Nil
    then show ?thesis unfolding split_last_dot_def Let_def rev_append d t
      by (simp del: dropWhile_eq_Nil_conv)
  next
    case (Cons y l)
    then show ?thesis unfolding split_last_dot_def Let_def rev_append d t
      by (simp del: dropWhile_eq_Nil_conv dropWhile_eq_Cons_conv)
  qed
qed

lemma utf8_encode_no_dot: "CHR ''.'' \<notin> set s \<Longrightarrow> dot \<notin> set (utf8_encode s)"
proof (induction s)
  case (Cons c s)
  have "dot \<notin> set (utf8_char c)"
  proof (cases "(of_char c :: nat) < 128")
    case True
    have "(of_char c :: nat) \<noteq> 46"
    proof
      assume "(of_char c :: nat) = 46"
      then have "(of_char c :: nat) = of_char (CHR ''.'')" by simp
      then have "c = CHR ''.''" by (metis char_of_char)
      then show False using Cons(2) by simp
    qed
    have "of_nat (of_char c) \<noteq> (46::byte)"
    proof
      assume "of_nat (of_char c) = (46::byte)"
      then have "unat (of_nat (of_char c) :: byte) = 46" by simp
      moreover have "unat (of_nat (of_char c) :: byte) = of_char c" using True by (simp add: unat_of_nat)
      ultimately show False using \<open>(of_char c :: nat) \<noteq> 46\<close> by simp
    qed
    then show ?thesis using True by (simp add: dot_def Let_def)
  next
    case False
    define n where "n = (of_char c :: nat)"
    have "n < 256" by (simp add: n_def)
    then have u: "unat (of_nat (192 + n div 64) :: byte) = 192 + n div 64"
      "unat (of_nat (128 + n mod 64) :: byte) = 128 + n mod 64"
      by (simp_all add: unat_of_nat del: of_nat_add)
    have ne1: "(of_nat (192 + n div 64) :: byte) \<noteq> 46"
    proof
      assume h: "(of_nat (192 + n div 64) :: byte) = 46"
      have "192 + n div 64 = unat (of_nat (192 + n div 64) :: byte)" by (simp only: u(1))
      also have "\<dots> = unat (46::byte)" using h by (simp only:)
      finally show False by simp
    qed
    have ne2: "(of_nat (128 + n mod 64) :: byte) \<noteq> 46"
    proof
      assume h: "(of_nat (128 + n mod 64) :: byte) = 46"
      have "128 + n mod 64 = unat (of_nat (128 + n mod 64) :: byte)" by (simp only: u(2))
      also have "\<dots> = unat (46::byte)" using h by (simp only:)
      finally show False by simp
    qed
    from ne1 ne2 have "dot \<notin> set [of_nat (192 + n div 64), of_nat (128 + n mod 64)]"
      by (simp add: dot_def del: of_nat_add)
    then show ?thesis using False by (simp only: utf8_char.simps Let_def n_def [symmetric] if_False not_False_eq_True)
  qed
  then show ?case using Cons by simp
qed simp

lemma jws_load_minus_plus:
  assumes "CHR ''.'' \<notin> set b"
  shows "jws_load d (a @ CHR ''+'' # b) = jws_load d (a @ CHR ''-'' # b)"
proof -
  have nd: "dot \<notin> set (43 # utf8_encode b)" "dot \<notin> set (45 # utf8_encode b)"
    using utf8_encode_no_dot [OF assms] by (simp_all add: dot_def)
  have e: "utf8_encode (a @ CHR ''+'' # b) = utf8_encode a @ 43 # utf8_encode b"
    "utf8_encode (a @ CHR ''-'' # b) = utf8_encode a @ 45 # utf8_encode b" by simp_all
  have s: "split_last_dot (utf8_encode (a @ CHR ''+'' # b))
             = map_option (\<lambda>(si, cs). (si, cs @ 43 # utf8_encode b)) (split_last_dot (utf8_encode a))"
          "split_last_dot (utf8_encode (a @ CHR ''-'' # b))
             = map_option (\<lambda>(si, cs). (si, cs @ 45 # utf8_encode b)) (split_last_dot (utf8_encode a))"
    unfolding e by (rule split_last_dot_suffix [OF nd(1)], rule split_last_dot_suffix [OF nd(2)])
  show ?thesis
  proof (cases "split_last_dot (utf8_encode a)")
    case None
    then show ?thesis unfolding jws_load_def s by simp
  next
    case (Some x)
    obtain si cs where x: "x = (si, cs)" by (cases x)
    have "split_last_dot (utf8_encode (a @ CHR ''+'' # b)) = Some (si, cs @ 43 # utf8_encode b)"
      and "split_last_dot (utf8_encode (a @ CHR ''-'' # b)) = Some (si, cs @ 45 # utf8_encode b)"
      using Some x unfolding s by simp_all
    moreover have "base64url_decode (cs @ 43 # utf8_encode b) = base64url_decode (cs @ 45 # utf8_encode b)"
      by (rule base64url_decode_minus_plus [symmetric])
    ultimately show ?thesis by (rule jws_load_segment_cong)
  qed
qed

end
