(* ===== verification/Jwt.thy ===== *)
theory Jwt
  imports Jose Config
begin

text \<open>
  \<open>app/auth/jwt.py\<close>: \<open>create_access_token\<close> and \<open>verify_token\<close>, over the module-level
  \<open>settings\<close>, the python-jose model of \<open>Jose\<close> and the keyed hash \<open>hm\<close>.  Datetimes
  and timedeltas are microseconds; each call of \<open>datetime.now(timezone.utc)\<close> in the code
  is an argument of the model, in the order the code reads the clock.
\<close>

section \<open>Datetime arithmetic\<close>

text \<open>\<open>datetime.min\<close> and \<open>datetime.max\<close> (years 1 and 9999) in microseconds since the epoch.\<close>

definition dt_min :: int where
  "dt_min = -62135596800000000"

definition dt_max :: int where
  "dt_max = 253402300799999999"

definition valid_datetime :: "int \<Rightarrow> bool" where
  "valid_datetime t \<longleftrightarrow> dt_min \<le> t \<and> t \<le> dt_max"

text \<open>\<open>datetime + timedelta\<close>: \<open>OverflowError("date value out of range")\<close> outside the range.\<close>

definition dt_add :: "int \<Rightarrow> int \<Rightarrow> exc + int" where
  "dt_add t delta = (if valid_datetime (t + delta) then Inr (t + delta) else Inl OverflowError)"

text \<open>\<open>timedelta(minutes=m)\<close>: the normalised day count must have magnitude at most
  999999999.\<close>

definition timedelta_minutes :: "int \<Rightarrow> exc + int" where
  "timedelta_minutes m =
     (if \<bar>m div 1440\<bar> \<le> 999999999 then Inr (m * 60000000) else Inl OverflowError)"

text \<open>Truth value of an \<open>Optional[timedelta]\<close>: \<open>None\<close> and the zero duration are false.\<close>

definition delta_truthy :: "int option \<Rightarrow> bool" where
  "delta_truthy expires_delta = (case expires_delta of None \<Rightarrow> False | Some delta \<Rightarrow> delta \<noteq> 0)"

section \<open>Token issue and verification\<close>

text \<open>Lines 21--24 of \<open>create_access_token\<close>: the expiry from the first clock reading.\<close>

definition expire_time :: "settings \<Rightarrow> int option \<Rightarrow> int \<Rightarrow> exc + int" where
  "expire_time st expires_delta t1 =
     (if delta_truthy expires_delta then dt_add t1 (the expires_delta)
      else (case timedelta_minutes (JWT_EXPIRES_MINUTES st) of
              Inl e \<Rightarrow> Inl e
            | Inr delta \<Rightarrow> dt_add t1 delta))"

text \<open>\<open>create_access_token(subject, expires_delta)\<close>: \<open>t1\<close> is the clock reading of
  the expiry, \<open>t2\<close> the later one of \<open>iat\<close>.\<close>

definition create_access_token ::
  "hmac \<Rightarrow> settings \<Rightarrow> pystr \<Rightarrow> int option \<Rightarrow> int \<Rightarrow> int \<Rightarrow> exc + pystr" where
  "create_access_token hm st subject expires_delta t1 t2 =
     (case expire_time st expires_delta t1 of
        Inl e \<Rightarrow> Inl e
      | Inr expire \<Rightarrow>
          jwt_encode hm [(''sub'', CStr subject), (''exp'', CTime expire), (''iat'', CTime t2)]
            (JWT_SECRET st) (JWT_ALGORITHM st))"

text \<open>
  \<open>verify_token(token)\<close>: decode with the configured secret and the single allowed
  algorithm; a \<open>JWTError\<close> (\<open>JWTClaimsError\<close> and \<open>ExpiredSignatureError\<close> included) is
  \<open>None\<close>, any other exception propagates; otherwise the \<open>sub\<close> claim, \<open>None\<close> when it is
  absent or JSON \<open>null\<close>.  \<open>t_nbf\<close> and \<open>t_exp\<close> are the clock readings of python-jose's
  \<open>nbf\<close> and \<open>exp\<close> checks.
\<close>

definition verify_token :: "hmac \<Rightarrow> nat \<Rightarrow> settings \<Rightarrow> pystr \<Rightarrow> int \<Rightarrow> int \<Rightarrow> exc + json option" where
  "verify_token hm d st token t_nbf t_exp =
     (case jwt_decode hm d t_nbf t_exp token (JWT_SECRET st) [JWT_ALGORITHM st] of
        Inl e \<Rightarrow> if is_jwt_error e then Inr None else Inl e
      | Inr payload \<Rightarrow>
          (case dict_get payload ''sub'' of
             None \<Rightarrow> Inr None
           | Some JNull \<Rightarrow> Inr None
           | Some v \<Rightarrow> Inr (Some v)))"
text \<open>The claims, as JSON, of a token that \<open>create_access_token\<close> issues with expiry \<open>e\<close>
  and second clock reading \<open>t2\<close>.\<close>

abbreviation token_claims :: "pystr \<Rightarrow> int \<Rightarrow> int \<Rightarrow> (pystr \<times> json) list" where
  "token_claims s e t2 \<equiv> [(''sub'', JStr s), (''exp'', JInt (timegm_utc e)), (''iat'', JInt (timegm_utc t2))]"

section \<open>Properties\<close>

lemma timegm_valid_wf:
  assumes "valid_datetime t"
  shows "json_wf (JInt (timegm_utc t))"
proof -
  have "\<bar>t div 1000000\<bar> < 10 ^ 12"
    using assms by (simp add: valid_datetime_def dt_min_def dt_max_def abs_less_iff) linarith
  then have "nat \<bar>timegm_utc t\<bar> < 10 ^ 12" by (simp add: timegm_utc_def nat_less_iff)
  then have "length (nat_repr (nat \<bar>timegm_utc t\<bar>)) \<le> 12" by (rule length_nat_repr_bound) simp
  then show ?thesis by simp
qed

lemma expire_time_valid: "expire_time st delta t1 = Inr e \<Longrightarrow> valid_datetime e"
  by (auto simp: expire_time_def dt_add_def split: if_splits sum.splits)

lemma create_access_token_sign:
  assumes "create_access_token hm st s delta t1 t2 = Inr tok" and "expire_time st delta t1 = Inr e"
  shows "jws_sign hm [(''sub'', CStr s), (''exp'', CInt (timegm_utc e)), (''iat'', CInt (timegm_utc t2))]
           (JWT_SECRET st) (JWT_ALGORITHM st) = Inr tok"
  using assms by (simp add: create_access_token_def jwt_encode_def)

lemma claims_json_token:
  "claims_json [(''sub'', CStr s), (''exp'', CInt E), (''iat'', CInt I)]
   = Inr [(''sub'', JStr s), (''exp'', JInt E), (''iat'', JInt I)]"
  by simp

lemma validate_token_claims:
  "validate_claims t_nbf t_exp [(''sub'', JStr s), (''exp'', JInt E), (''iat'', JInt I)]
   = (if E < timegm_utc t_exp then Inl ExpiredSignatureError else Inr ())"
  by (simp add: validate_claims_def validate_iat_def validate_nbf_def validate_exp_def validate_aud_def
      validate_str_claim_def validate_at_hash_def dict_get_def claim_int_def)

subsection \<open>Issued tokens\<close>

lemma created_token_jwt_decode:
  assumes "create_access_token hm st s delta t1 t2 = Inr tok"
    and "expire_time st delta t1 = Inr e" and "valid_datetime t2"
    and "isl (loads_key d (JWT_SECRET st))" and "1 \<le> d"
  shows "jwt_decode hm d t_nbf t_exp tok (JWT_SECRET st) [JWT_ALGORITHM st]
         = ok_then (validate_claims t_nbf t_exp (token_claims s e t2)) (Inr (token_claims s e t2))"
proof -
  have wf: "json_wf (JObj (token_claims s e t2))"
    using timegm_valid_wf [OF expire_time_valid [OF assms(2)]] timegm_valid_wf [OF assms(3)] by simp
  have dep: "json_depth (JObj (token_claims s e t2)) \<le> d" using assms(5) by simp
  show ?thesis
    using create_access_token_sign [OF assms(1,2)] claims_json_token wf dep assms(5) _ get_keys_plain [OF assms(4)]
    by (rule jwt_decode_sign) simp
qed

lemma verify_token_load_cong:
  "jws_load d tok = jws_load d tok' \<Longrightarrow> verify_token hm d st tok t_nbf t_exp = verify_token hm d st tok' t_nbf t_exp"
  by (simp add: verify_token_def jwt_decode_def jws_verify_def)

lemma created_token:
  assumes "create_access_token hm st s delta t1 t2 = Inr tok"
  obtains e kb where "expire_time st delta t1 = Inr e" and "JWT_ALGORITHM st \<in> set hmac_algs"
    and "hmac_prepare (JWT_SECRET st) = Inr kb"
    and "tok = map char_of_byte
           ((encode_header (JWT_ALGORITHM st) @ dot # base64url_encode (utf8_encode (dumps False (JObj (token_claims s e t2)))))
            @ dot # base64url_encode (hm (JWT_ALGORITHM st) kb
               (encode_header (JWT_ALGORITHM st) @ dot # base64url_encode (utf8_encode (dumps False (JObj (token_claims s e t2)))))))"
proof -
  obtain e where e: "expire_time st delta t1 = Inr e"
    using assms by (auto simp: create_access_token_def split: sum.splits)
  note sg = create_access_token_sign [OF assms e]
  obtain kb where ck: "construct_key (JStr (JWT_SECRET st)) (JWT_ALGORITHM st) = Inr (JWT_ALGORITHM st, kb)"
    and tok: "tok = map char_of_byte
           ((encode_header (JWT_ALGORITHM st) @ dot # base64url_encode (utf8_encode (dumps False (JObj (token_claims s e t2)))))
            @ dot # base64url_encode (hm (JWT_ALGORITHM st) kb
               (encode_header (JWT_ALGORITHM st) @ dot # base64url_encode (utf8_encode (dumps False (JObj (token_claims s e t2)))))))"
    by (rule jws_sign_ok [OF sg claims_json_token])
  have alg: "JWT_ALGORITHM st \<in> set hmac_algs" using ck construct_key_str_ok by blast
  then have "hmac_prepare (JWT_SECRET st) = Inr kb"
    using ck by (auto simp: hmac_str_key_def split: sum.splits)
  then show ?thesis using that e alg tok by blast
qed

lemma created_token_load:
  assumes "create_access_token hm st s delta t1 t2 = Inr tok" and "expire_time st delta t1 = Inr e"
    and "hmac_prepare (JWT_SECRET st) = Inr kb" and "1 \<le> d"
  shows "jws_load d tok = Inr ([(''alg'', JStr (JWT_ALGORITHM st)), (''typ'', JStr ''JWT'')],
           utf8_encode (dumps False (JObj (token_claims s e t2))),
           encode_header (JWT_ALGORITHM st) @ dot # base64url_encode (utf8_encode (dumps False (JObj (token_claims s e t2)))),
           hm (JWT_ALGORITHM st) kb (encode_header (JWT_ALGORITHM st) @ dot # base64url_encode (utf8_encode (dumps False (JObj (token_claims s e t2))))))"
proof -
  obtain kb' where ck: "construct_key (JStr (JWT_SECRET st)) (JWT_ALGORITHM st) = Inr (JWT_ALGORITHM st, kb')"
    and ld: "jws_load d tok = Inr ([(''alg'', JStr (JWT_ALGORITHM st)), (''typ'', JStr ''JWT'')],
           utf8_encode (dumps False (JObj (token_claims s e t2))),
           encode_header (JWT_ALGORITHM st) @ dot # base64url_encode (utf8_encode (dumps False (JObj (token_claims s e t2)))),
           hm (JWT_ALGORITHM st) kb' (encode_header (JWT_ALGORITHM st) @ dot # base64url_encode (utf8_encode (dumps False (JObj (token_claims s e t2))))))"
    by (rule jws_load_sign [OF create_access_token_sign [OF assms(1,2)] claims_json_token assms(4)])
  have "kb' = kb" using ck assms(3) by (auto simp: hmac_str_key_def split: if_splits)
  then show ?thesis using ld by simp
qed

lemma create_access_token_Inr:
  assumes "expire_time st delta t1 = Inr e" and "JWT_ALGORITHM st \<in> set hmac_algs"
    and "hmac_prepare (JWT_SECRET st) = Inr kb"
  shows "\<exists>tok. create_access_token hm st s delta t1 t2 = Inr tok"
  using assms by (auto simp: create_access_token_def jwt_encode_def jws_sign_def supported_algs_def
    hmac_str_key_def Let_def)

lemma verify_token_created_mismatch:
  assumes "create_access_token hm st1 s delta t1 t2 = Inr tok"
    and "JWT_ALGORITHM st2 = JWT_ALGORITHM st1" and "get_keys d (JWT_SECRET st2) = Inr [JStr k]"
    and "hmac_prepare k = Inr k2" and "hmac_prepare (JWT_SECRET st1) = Inr k1"
    and "\<forall>m. hm (JWT_ALGORITHM st1) k1 m \<noteq> hm (JWT_ALGORITHM st1) k2 m" and "1 \<le> d"
  shows "verify_token hm d st2 tok t_nbf t_exp = Inr None"
proof -
  obtain e kb where e: "expire_time st1 delta t1 = Inr e" and alg: "JWT_ALGORITHM st1 \<in> set hmac_algs"
    and kb: "hmac_prepare (JWT_SECRET st1) = Inr kb"
    using created_token [OF assms(1)] by metis
  have "kb = k1" using kb assms(5) by simp
  moreover have "hm (JWT_ALGORITHM st1) k2 m \<noteq> hm (JWT_ALGORITHM st1) k1 m" for m
    using assms(6) by metis
  ultimately have "jwt_decode hm d t_nbf t_exp tok (JWT_SECRET st2) [JWT_ALGORITHM st2] = Inl JWTError"
    using created_token_load [OF assms(1) e kb assms(7)] assms(2,3,4) alg
    by (intro jwt_decode_mac_mismatch) (auto simp: dict_get_def)
  then show ?thesis by (simp add: verify_token_def)
qed

subsection \<open>Claims\<close>

text \<open>C1: A token issued by \<open>create_access_token\<close> is verified by \<open>verify_token\<close> to its
  subject up to and including the second of its expiry, and rejected (\<open>None\<close>) from the next
  second on, for a secret that is not itself JSON text.\<close>

theorem verify_token_create_access_token:
  assumes "create_access_token hm st s delta t1 t2 = Inr tok"
    and "expire_time st delta t1 = Inr e" and "valid_datetime t2"
    and "isl (loads_key d (JWT_SECRET st))" and "1 \<le> d"
  shows "verify_token hm d st tok t_nbf t_exp
         = (if timegm_utc e < timegm_utc t_exp then Inr None else Inr (Some (JStr s)))"
  using created_token_jwt_decode [OF assms]
  by (simp add: verify_token_def validate_token_claims dict_get_def)

text \<open>C2: Authenticity: a token that \<open>verify_token\<close> accepts is a signing input, a dot and a
  segment that decodes to the MAC of that signing input under the configured secret and the
  configured algorithm, and its header names the configured algorithm.\<close>

theorem verify_token_authentic:
  assumes "verify_token hm d st tok t_nbf t_exp = Inr (Some v)" and "isl (loads_key d (JWT_SECRET st))"
  shows "\<exists>si cs kb. utf8_encode tok = si @ dot # cs \<and> dot \<notin> set cs
           \<and> hmac_prepare (JWT_SECRET st) = Inr kb
           \<and> base64url_decode cs = Inr (hm (JWT_ALGORITHM st) kb si)
           \<and> (\<exists>h p. jws_load d tok = Inr (h, p, si, hm (JWT_ALGORITHM st) kb si)
                    \<and> dict_get h ''alg'' = Some (JStr (JWT_ALGORITHM st)))"
proof -
  obtain cl where "jwt_decode hm d t_nbf t_exp tok (JWT_SECRET st) [JWT_ALGORITHM st] = Inr cl"
    using assms(1) by (auto simp: verify_token_def split: sum.splits if_splits)
  then obtain p where "jws_verify hm d tok (JWT_SECRET st) [JWT_ALGORITHM st] = Inr p"
    using jwt_decode_Inr(1) by blast
  then obtain h si sg alg kb where ld: "jws_load d tok = Inr (h, p, si, sg)"
    and a: "dict_get h ''alg'' = Some (JStr alg)" and al: "alg \<in> set [JWT_ALGORITHM st]"
    and k: "hmac_prepare (JWT_SECRET st) = Inr kb" and sg: "sg = hm alg kb si"
    using jws_verify_Inr get_keys_plain [OF assms(2)] by metis
  obtain cs where "split_last_dot (utf8_encode tok) = Some (si, cs)" and "base64url_decode cs = Inr sg"
    using jws_load_Inr [OF ld] by blast
  then show ?thesis using split_last_dot_Some ld a al k sg by fastforce
qed

text \<open>C3: A token issued under one secret is rejected by \<open>verify_token\<close> under another secret
  whose MAC differs on every message.\<close>

theorem verify_token_wrong_secret:
  assumes "create_access_token hm st1 s delta t1 t2 = Inr tok"
    and "JWT_ALGORITHM st2 = JWT_ALGORITHM st1" and "isl (loads_key d (JWT_SECRET st2))"
    and "hmac_prepare (JWT_SECRET st1) = Inr k1" and "hmac_prepare (JWT_SECRET st2) = Inr k2"
    and "\<forall>m. hm (JWT_ALGORITHM st1) k1 m \<noteq> hm (JWT_ALGORITHM st1) k2 m" and "1 \<le> d"
  shows "verify_token hm d st2 tok t_nbf t_exp = Inr None"
  using assms(1,2) get_keys_plain [OF assms(3)] assms(5,4,6,7) by (rule verify_token_created_mismatch)

text \<open>With a 32-byte MAC (HS256), replacing the last character of an issued token by another
  one leaves the result of \<open>verify_token\<close> unchanged: the final base64url character carries
  two bits that the decoder discards.\<close>

theorem verify_token_signature_last_char:
  assumes "create_access_token hm st s delta t1 t2 = Inr tok"
    and "\<forall>k m. length (hm (JWT_ALGORITHM st) k m) mod 3 = 2"
  shows "\<exists>c. c \<noteq> last tok
           \<and> verify_token hm d st (butlast tok @ [c]) t_nbf t_exp = verify_token hm d st tok t_nbf t_exp"
proof -
  obtain e kb where tok: "tok = map char_of_byte
           ((encode_header (JWT_ALGORITHM st) @ dot # base64url_encode (utf8_encode (dumps False (JObj (token_claims s e t2)))))
            @ dot # base64url_encode (hm (JWT_ALGORITHM st) kb
               (encode_header (JWT_ALGORITHM st) @ dot # base64url_encode (utf8_encode (dumps False (JObj (token_claims s e t2)))))))"
    using created_token [OF assms(1)] by metis
  define si where "si = encode_header (JWT_ALGORITHM st) @ dot # base64url_encode (utf8_encode (dumps False (JObj (token_claims s e t2))))"
  define sg where "sg = hm (JWT_ALGORITHM st) kb si"
  define x where "x = urlsafe_encode_translate (b64_char (last (b64_sextets sg) OR 1))"
  define es where "es = base64url_encode sg"
  define es' where "es' = butlast es @ [x]"
  have len: "length sg mod 3 = 2" using assms(2) by (simp add: sg_def)
  then have ne: "es \<noteq> []" unfolding es_def by (intro base64url_encode_nonempty) auto
  have tok': "tok = map char_of_byte (si @ dot # es)" using tok by (simp add: si_def sg_def es_def)
  have bt: "butlast tok @ [char_of_byte x] = map char_of_byte (si @ dot # es')"
    using ne by (simp add: tok' es'_def map_butlast butlast_append)
  have "es' \<noteq> es" using base64url_last_char_variant_differs [OF len] by (simp add: es'_def es_def x_def)
  then have xl: "x \<noteq> last es" using ne by (metis append_butlast_last_id es'_def)
  have asc: "\<forall>b \<in> set (si @ es @ es'). unat b < 128"
    using base64url_encode_ascii b64url_char_ascii [of "last (b64_sextets sg) OR 1"]
    by (auto simp: si_def es_def es'_def x_def encode_header_def dot_def dest: in_set_butlastD)
  have nd: "dot \<notin> set es" "dot \<notin> set es'"
    using base64url_encode_ascii b64url_char_ascii [of "last (b64_sextets sg) OR 1"]
    by (auto simp: es_def es'_def x_def dest: in_set_butlastD)
  have dec: "base64url_decode es = base64url_decode es'"
    using base64url_last_char_variant [OF len] base64url_roundtrip by (simp add: es_def es'_def x_def)
  have "jws_load d (butlast tok @ [char_of_byte x]) = jws_load d tok"
    unfolding bt by (subst tok') (rule jws_load_signature_cong [OF asc nd dec, symmetric])
  moreover have "char_of_byte x \<noteq> last tok"
    using xl ne char_of_byte_inj by (auto simp: tok' last_map)
  ultimately show ?thesis using verify_token_load_cong by blast
qed

text \<open>Replacing a \<open>-\<close> by \<open>+\<close> in the signature segment (after the last dot) of any token
  leaves the result of \<open>verify_token\<close> unchanged: the non-strict decoder reads both as 62.\<close>

theorem verify_token_minus_plus:
  assumes "CHR ''.'' \<notin> set b"
  shows "verify_token hm d st (a @ CHR ''+'' # b) t_nbf t_exp = verify_token hm d st (a @ CHR ''-'' # b) t_nbf t_exp"
  using jws_load_minus_plus [OF assms] by (rule verify_token_load_cong)

text \<open>C4: With an HMAC algorithm configured, \<open>create_access_token\<close> returns a token exactly
  when the expiry can be computed and the secret is not asymmetric key material; an expiry
  error propagates as it is, and a refused secret is raised by \<open>jws.sign\<close> as \<open>JWSError\<close>.\<close>

theorem create_access_token_succeeds:
  assumes "JWT_ALGORITHM st \<in> set hmac_algs"
  shows "((\<exists>tok. create_access_token hm st s delta t1 t2 = Inr tok) \<longleftrightarrow>
            (\<exists>e. expire_time st delta t1 = Inr e) \<and> (\<exists>kb. hmac_prepare (JWT_SECRET st) = Inr kb))
         \<and> (expire_time st delta t1 = Inl x \<longrightarrow> create_access_token hm st s delta t1 t2 = Inl x)
         \<and> ((\<exists>e. expire_time st delta t1 = Inr e) \<and> isl (hmac_prepare (JWT_SECRET st))
            \<longrightarrow> create_access_token hm st s delta t1 t2 = Inl JWSError)"
proof (intro conjI impI)
  show "(\<exists>tok. create_access_token hm st s delta t1 t2 = Inr tok) \<longleftrightarrow>
        (\<exists>e. expire_time st delta t1 = Inr e) \<and> (\<exists>kb. hmac_prepare (JWT_SECRET st) = Inr kb)"
    using assms by (metis created_token create_access_token_Inr)
next
  assume "expire_time st delta t1 = Inl x"
  then show "create_access_token hm st s delta t1 t2 = Inl x" by (simp add: create_access_token_def)
next
  assume "(\<exists>e. expire_time st delta t1 = Inr e) \<and> isl (hmac_prepare (JWT_SECRET st))"
  then show "create_access_token hm st s delta t1 t2 = Inl JWSError"
    using assms hmac_alg_supported
    by (auto simp: create_access_token_def jwt_encode_def jws_sign_def hmac_str_key_def Let_def
        split: sum.splits)
qed

text \<open>C5: With a secret that python-jose reads as a Python constant (\<open>true\<close>, \<open>false\<close>,
  \<open>null\<close>, \<open>NaN\<close>, \<open>Infinity\<close>), \<open>verify_token\<close> raises \<open>JWKError\<close> on every token the
  application issues: \<open>_get_keys\<close> reads the key as JSON and \<open>HMACKey\<close> refuses a
  non-string, outside the \<open>except JWTError\<close>.\<close>

theorem verify_token_constant_secret:
  assumes "create_access_token hm st s delta t1 t2 = Inr tok"
    and "loads_key d (JWT_SECRET st) = Inr v" and "v = JNull \<or> (\<exists>b. v = JBool b) \<or> (\<exists>f. v = JFloat f)"
    and "1 \<le> d"
  shows "verify_token hm d st tok t_nbf t_exp = Inl JWKError"
proof -
  obtain e kb where e: "expire_time st delta t1 = Inr e" and alg: "JWT_ALGORITHM st \<in> set hmac_algs"
    and kb: "hmac_prepare (JWT_SECRET st) = Inr kb"
    using created_token [OF assms(1)] by metis
  have k: "get_keys d (JWT_SECRET st) = Inr [v]" and c: "construct_key v (JWT_ALGORITHM st) = Inl JWKError"
    using assms(2,3) by (auto simp: get_keys_def)
  then show ?thesis
    using created_token_load [OF assms(1) e kb assms(4)] hmac_alg_nonempty [OF alg]
    by (simp add: verify_token_def jwt_decode_def jws_verify_def verify_signature_def dict_get_def)
qed

text \<open>C6: With a secret that is a JSON string literal (quotes included), \<open>verify_token\<close> checks
  the MAC under the unquoted string and so rejects every token the application issues.\<close>

theorem verify_token_json_string_secret:
  assumes "create_access_token hm st s delta t1 t2 = Inr tok"
    and "loads_key d (JWT_SECRET st) = Inr (JStr k)"
    and "hmac_prepare (JWT_SECRET st) = Inr k1" and "hmac_prepare k = Inr k2"
    and "\<forall>m. hm (JWT_ALGORITHM st) k1 m \<noteq> hm (JWT_ALGORITHM st) k2 m" and "1 \<le> d"
  shows "verify_token hm d st tok t_nbf t_exp = Inr None"
proof -
  have "get_keys d (JWT_SECRET st) = Inr [JStr k]" using assms(2) by (simp add: get_keys_def)
  then show ?thesis by (rule verify_token_created_mismatch [OF assms(1) refl _ assms(4,3,5,6)])
qed

text \<open>C7: Whatever token it is given, \<open>verify_token\<close> returns either nothing or a string subject.\<close>

theorem verify_token_subject_is_str:
  assumes "verify_token hm d st tok t_nbf t_exp = Inr (Some v)"
  shows "\<exists>s. v = JStr s"
proof -
  obtain cl where dec: "jwt_decode hm d t_nbf t_exp tok (JWT_SECRET st) [JWT_ALGORITHM st] = Inr cl"
    and sub: "dict_get cl ''sub'' = Some v"
    using assms by (auto simp: verify_token_def split: sum.splits if_splits option.splits json.splits)
  have "validate_claims t_nbf t_exp cl = Inr ()" using jwt_decode_Inr(2) [OF dec] .
  then have "validate_str_claim ''sub'' cl = Inr ()" by (simp add: validate_claims_def)
  then show ?thesis using sub by (auto simp: validate_str_claim_def split: json.splits)
qed

text \<open>C8: The expiry of a token is the first clock reading plus \<open>expires_delta\<close> when that is a
  non-zero duration, and plus \<open>JWT_EXPIRES_MINUTES\<close> minutes otherwise.\<close>

theorem expire_time_value:
  assumes "expire_time st delta t1 = Inr e"
  shows "e = t1 + (if delta_truthy delta then the delta else JWT_EXPIRES_MINUTES st * 60000000)"
  using assms by (auto simp: expire_time_def dt_add_def timedelta_minutes_def split: if_splits sum.splits)

text \<open>C9: A zero \<open>expires_delta\<close> is falsy: \<open>create_access_token\<close> then issues the same token as
  without one, valid for the default lifetime.\<close>

theorem create_access_token_zero_delta:
  "create_access_token hm st s (Some 0) t1 t2 = create_access_token hm st s None t1 t2"
  by (simp add: create_access_token_def expire_time_def delta_truthy_def)

text \<open>C10: Without an \<open>expires_delta\<close>, a configured lifetime beyond the \<open>timedelta\<close> range makes
  every call of \<open>create_access_token\<close> raise \<open>OverflowError\<close>.\<close>

theorem create_access_token_overflow:
  assumes "\<not> delta_truthy delta" and "999999999 < \<bar>JWT_EXPIRES_MINUTES st div 1440\<bar>"
  shows "create_access_token hm st s delta t1 t2 = Inl OverflowError"
  using assms by (simp add: create_access_token_def expire_time_def timedelta_minutes_def)

text \<open>C24: A token whose header segment decodes to JSON nested deeper than the interpreter's
  remaining recursion depth makes \<open>verify_token\<close> raise \<open>RecursionError\<close> instead of
  returning \<open>None\<close>, before any signature is checked: python-jose only turns a
  \<open>ValueError\<close> of \<open>json.loads\<close> into \<open>JWSError\<close>.\<close>

theorem verify_token_nested_header:
  assumes "utf8_encode tok = hs @ dot # ps @ dot # cs" and "dot \<notin> set hs" and "dot \<notin> set cs"
    and "base64url_decode hs = Inr (utf8_encode (replicate (Suc d) CHR ''['' @ replicate (Suc d) CHR '']''))"
  shows "verify_token hm d st tok t_nbf t_exp = Inl RecursionError"
proof -
  define h where "h = replicate (Suc d) CHR ''['' @ replicate (Suc d) CHR '']''"
  have sl: "split_last_dot (utf8_encode tok) = Some (hs @ dot # ps, cs)"
    using split_last_dot_append [OF assms(3), of "hs @ dot # ps"] assms(1) by simp
  have sf: "split_first_dot (hs @ dot # ps) = Some (hs, ps)" by (rule split_first_dot_append [OF assms(2)])
  have dec: "base64url_decode hs = Inr (utf8_encode h)" unfolding h_def by (rule assms(4))
  have l: "loads d h = Inl RecursionError" unfolding h_def by (rule loads_nested)
  have "jws_load d tok = Inl RecursionError"
    unfolding jws_load_def sl option.case prod.case sf dec sum.case utf8_roundtrip l by simp
  then show ?thesis by (simp add: verify_token_def jwt_decode_def jws_verify_def)
qed

end
