(* ===== verification/Schemas.thy ===== *)
theory Schemas
  imports Json
begin

text \<open>
  \<open>app/schemas/auth.py\<close>: the pydantic models of the request and response bodies.  A
  request body is a JSON value; validating it against \<open>UserCreate\<close> or \<open>UserLogin\<close> runs
  the field validation (type checks, \<open>EmailStr\<close>, the \<open>field_validator\<close>s) and, when every
  field is valid, the \<open>model_validator(mode="after")\<close>.  Any failure is pydantic's
  \<open>ValidationError\<close>, which FastAPI answers with status 422 before the route runs.

  \<open>EmailStr\<close> delegates to the \<open>email-validator\<close> package, which is not modelled: it is the
  parameter \<open>ev\<close>, giving the normalised address or \<open>None\<close> for an invalid one.
\<close>

type_synonym email_validator = "pystr \<Rightarrow> pystr option"

section \<open>Models\<close>

record user_create =
  uc_email :: pystr
  uc_password :: pystr
  uc_confirm_password :: "pystr option"

record user_login =
  ul_email :: pystr
  ul_password :: pystr

record token_response =
  access_token :: pystr
  token_type :: pystr

text \<open>\<open>TokenResponse(access_token=t)\<close>: \<open>token_type\<close> defaults to \<open>"bearer"\<close>.\<close>

definition token_response_of :: "pystr \<Rightarrow> token_response" where
  "token_response_of t = \<lparr>access_token = t, token_type = ''bearer''\<rparr>"

text \<open>\<open>MessageResponse(message=m)\<close>: \<open>success\<close> defaults to \<open>True\<close>.  No route of
  \<open>app/routes/auth.py\<close> answers with it.\<close>

record message_response =
  message :: pystr
  success :: bool

section \<open>Validators\<close>

text \<open>\<open>UserCreate.validate_password\<close>: empty or whitespace-only, then shorter than 8 characters.\<close>

definition validate_password :: "pystr \<Rightarrow> exc + pystr" where
  "validate_password v =
     (if v = [] \<or> py_strip v = [] then Inl ValueError
      else if length v < 8 then Inl ValueError
      else Inr v)"

text \<open>\<open>UserCreate.validate_passwords_match\<close>.\<close>

definition validate_passwords_match :: "user_create \<Rightarrow> exc + user_create" where
  "validate_passwords_match u =
     (case uc_confirm_password u of
        Some c \<Rightarrow> if uc_password u \<noteq> c then Inl ValueError else Inr u
      | None \<Rightarrow> Inr u)"

text \<open>\<open>UserLogin.validate_password_not_empty\<close>.\<close>

definition validate_password_not_empty :: "pystr \<Rightarrow> exc + pystr" where
  "validate_password_not_empty v = (if v = [] \<or> py_strip v = [] then Inl ValueError else Inr v)"

section \<open>Validation of a request body\<close>

text \<open>A required \<open>str\<close> field (no coercion from other JSON types), then its validator.\<close>

definition str_field :: "(pystr \<times> json) list \<Rightarrow> pystr \<Rightarrow> (pystr \<Rightarrow> exc + pystr) \<Rightarrow> pystr option" where
  "str_field kvs k f =
     (case dict_get kvs k of
        Some (JStr s) \<Rightarrow> (case f s of Inr v \<Rightarrow> Some v | Inl _ \<Rightarrow> None)
      | _ \<Rightarrow> None)"

text \<open>An \<open>EmailStr\<close> field.\<close>

definition email_field :: "email_validator \<Rightarrow> (pystr \<times> json) list \<Rightarrow> pystr option" where
  "email_field ev kvs = (case dict_get kvs ''email'' of Some (JStr s) \<Rightarrow> ev s | _ \<Rightarrow> None)"

text \<open>\<open>Optional[str] = None\<close>: absent or \<open>null\<close> is \<open>None\<close>; \<open>None\<close> of the outer option
  is a type error.\<close>

definition opt_str_field :: "(pystr \<times> json) list \<Rightarrow> pystr \<Rightarrow> pystr option option" where
  "opt_str_field kvs k =
     (case dict_get kvs k of
        None \<Rightarrow> Some None
      | Some JNull \<Rightarrow> Some None
      | Some (JStr s) \<Rightarrow> Some (Some s)
      | Some _ \<Rightarrow> None)"

definition validate_user_create :: "email_validator \<Rightarrow> json \<Rightarrow> exc + user_create" where
  "validate_user_create ev body =
     (case body of
        JObj kvs \<Rightarrow>
          (case (email_field ev kvs, str_field kvs ''password'' validate_password,
                 opt_str_field kvs ''confirm_password'') of
             (Some e, Some p, Some c) \<Rightarrow>
               (case validate_passwords_match \<lparr>uc_email = e, uc_password = p, uc_confirm_password = c\<rparr> of
                  Inl _ \<Rightarrow> Inl ValidationError
                | Inr u \<Rightarrow> Inr u)
           | _ \<Rightarrow> Inl ValidationError)
      | _ \<Rightarrow> Inl ValidationError)"

definition validate_user_login :: "email_validator \<Rightarrow> json \<Rightarrow> exc + user_login" where
  "validate_user_login ev body =
     (case body of
        JObj kvs \<Rightarrow>
          (case (email_field ev kvs, str_field kvs ''password'' validate_password_not_empty) of
             (Some e, Some p) \<Rightarrow> Inr \<lparr>ul_email = e, ul_password = p\<rparr>
           | _ \<Rightarrow> Inl ValidationError)
      | _ \<Rightarrow> Inl ValidationError)"


section \<open>Properties\<close>

lemma validate_password_Inr:
  "validate_password s = Inr p \<Longrightarrow> 8 \<le> length p \<and> (\<exists>c \<in> set p. \<not> py_isspace c)"
  using py_strip_empty_iff [of s] by (auto simp: validate_password_def split: if_splits)

text \<open>C18: \<open>validate_password\<close> accepts a password exactly when it has a character that is not
  whitespace and at least 8 characters, whitespace included; it returns the password unchanged.\<close>

theorem validate_password_iff:
  "validate_password v = (if (\<exists>c \<in> set v. \<not> py_isspace c) \<and> 8 \<le> length v then Inr v else Inl ValueError)"
  using py_strip_empty_iff [of v] by (auto simp: validate_password_def)

text \<open>C19: A body accepted as \<open>UserCreate\<close> has a password of at least 8 characters with a
  non-whitespace character, a confirmation that is absent or equal to it, and as email the
  validator's normal form of the body's \<open>email\<close> string.\<close>

theorem validate_user_create_sound:
  assumes "validate_user_create ev body = Inr u"
  shows "8 \<le> length (uc_password u) \<and> (\<exists>c \<in> set (uc_password u). \<not> py_isspace c)
         \<and> (uc_confirm_password u = None \<or> uc_confirm_password u = Some (uc_password u))
         \<and> (\<exists>kvs s. body = JObj kvs \<and> dict_get kvs ''email'' = Some (JStr s) \<and> ev s = Some (uc_email u))"
proof -
  obtain kvs e p c where b: "body = JObj kvs" and e: "email_field ev kvs = Some e"
    and p: "str_field kvs ''password'' validate_password = Some p"
    and c: "opt_str_field kvs ''confirm_password'' = Some c"
    and m: "validate_passwords_match \<lparr>uc_email = e, uc_password = p, uc_confirm_password = c\<rparr> = Inr u"
    using assms by (auto simp: validate_user_create_def split: json.splits option.splits sum.splits)
  have u: "u = \<lparr>uc_email = e, uc_password = p, uc_confirm_password = c\<rparr>"
    and cm: "c = None \<or> c = Some p"
    using m by (auto simp: validate_passwords_match_def split: option.splits if_splits)
  obtain s where "dict_get kvs ''password'' = Some (JStr s)" and "validate_password s = Inr p"
    using p by (auto simp: str_field_def split: option.splits json.splits sum.splits)
  then have pw: "8 \<le> length p \<and> (\<exists>c \<in> set p. \<not> py_isspace c)"
    using validate_password_Inr by blast
  obtain s' where "dict_get kvs ''email'' = Some (JStr s')" and "ev s' = Some e"
    using e by (auto simp: email_field_def split: option.splits json.splits)
  then show ?thesis using b u cm pw by auto
qed

end
