(* ===== verification/Routes.thy ===== *)
theory Routes
  imports Jwt Schemas
begin

text \<open>
  \<open>app/routes/auth.py\<close>: the \<open>/register\<close> and \<open>/login\<close> handlers over the \<open>users\<close> table
  of \<open>app/models/user.py\<close>.  The database is explicit state: the rows in insertion order
  and the identity sequence of \<open>id\<close>.  A handler receives the validated request model (see
  \<open>Schemas\<close>), the settings, the keyed hash and the clock readings of
  \<open>create_access_token\<close>, and returns its response or the exception it raises, with the
  database after the request.

  \<open>app.auth.password\<close> is not among the sources: \<open>hash_password\<close> and
  \<open>verify_password\<close> are the parameters \<open>hp\<close> and \<open>vp\<close>; \<open>hp salt p\<close> is the digest of
  \<open>p\<close> under the fresh salt \<open>salt\<close> of that call, of any type \<open>'s\<close> the hasher chooses
  (\<open>Password\<close> implements the interface with byte-string salts).  Lemmas that need the hasher's contract
  (a digest verifies its password) say so in a hypothesis.
\<close>

type_synonym 's hash_fn = "'s \<Rightarrow> pystr \<Rightarrow> pystr"
type_synonym verify_fn = "pystr \<Rightarrow> pystr \<Rightarrow> bool"

section \<open>The \<open>users\<close> table\<close>

text \<open>A row of \<open>users\<close>: \<open>created_at\<close> is filled by the server default \<open>now()\<close>.\<close>

record user =
  user_id :: nat
  email :: pystr
  hashed_password :: pystr
  created_at :: int

text \<open>The table: its rows in insertion order, the identity sequence of \<open>id\<close>, and the
  database server's clock, which \<open>now()\<close> reads (microseconds since the epoch).\<close>

record db =
  users :: "user list"
  id_seq :: nat
  db_clock :: int

text \<open>An empty table; PostgreSQL's identity sequence starts at 1.\<close>

definition db_init :: db where
  "db_init = \<lparr>users = [], id_seq = 1, db_clock = 0\<rparr>"

text \<open>\<open>User.__repr__\<close>: \<open>f"<User(id={self.id}, email={self.email})>"\<close>.\<close>

definition user_repr :: "user \<Rightarrow> pystr" where
  "user_repr u = ''<User(id='' @ nat_repr (user_id u) @ '', email='' @ email u @ '')>''"

text \<open>\<open>db.execute(select(User).where(User.email == e)).scalar_one_or_none()\<close>.\<close>

definition select_user :: "db \<Rightarrow> pystr \<Rightarrow> exc + user option" where
  "select_user d e =
     (case filter (\<lambda>u. email u = e) (users d) of
        [] \<Rightarrow> Inr None
      | [u] \<Rightarrow> Inr (Some u)
      | _ \<Rightarrow> Inl MultipleResultsFound)"

text \<open>
  \<open>db.add(User(email=e, hashed_password=h)); db.commit()\<close>: the insert draws the next
  \<open>id\<close> from the sequence (which a failed transaction does not give back), then the
  \<open>String(255)\<close> columns and the unique index on \<open>email\<close> are checked.
\<close>

definition db_insert :: "db \<Rightarrow> pystr \<Rightarrow> pystr \<Rightarrow> (exc + user) \<times> db" where
  "db_insert d e h =
     (let uid = id_seq d; d1 = d\<lparr>id_seq := Suc uid\<rparr> in
      if 255 < length e \<or> 255 < length h then (Inl DataError, d1)
      else if e \<in> set (map email (users d)) then (Inl IntegrityError, d1)
      else (let u = \<lparr>user_id = uid, email = e, hashed_password = h, created_at = db_clock d\<rparr>
            in (Inr u, d1\<lparr>users := users d @ [u]\<rparr>)))"

section \<open>Handlers\<close>

text \<open>\<open>register(user_data, db)\<close>: refuse a known email, hash the password, insert and commit,
  then issue a token for the stored email.\<close>

definition register ::
  "hmac \<Rightarrow> settings \<Rightarrow> 's hash_fn \<Rightarrow> 's \<Rightarrow> int \<Rightarrow> int \<Rightarrow> user_create \<Rightarrow> db
   \<Rightarrow> (exc + token_response) \<times> db" where
  "register hm st hp salt t1 t2 ud d =
     (case select_user d (uc_email ud) of
        Inl e \<Rightarrow> (Inl e, d)
      | Inr (Some _) \<Rightarrow> (Inl (HTTPException 400 ''Email already registered'' []), d)
      | Inr None \<Rightarrow>
          (case db_insert d (uc_email ud) (hp salt (uc_password ud)) of
             (Inl e, d') \<Rightarrow> (Inl e, d')
           | (Inr u, d') \<Rightarrow>
               (map_sum id token_response_of (create_access_token hm st (email u) None t1 t2), d')))"

text \<open>\<open>login(credentials, db)\<close>: the same 401 for an unknown email and for a wrong password,
  otherwise a token for the stored email.  The table is only read.\<close>

definition login ::
  "hmac \<Rightarrow> settings \<Rightarrow> verify_fn \<Rightarrow> int \<Rightarrow> int \<Rightarrow> user_login \<Rightarrow> db \<Rightarrow> exc + token_response" where
  "login hm st vp t1 t2 cr d =
     (case select_user d (ul_email cr) of
        Inl e \<Rightarrow> Inl e
      | Inr None \<Rightarrow> Inl (HTTPException 401 ''Invalid credentials'' [(''WWW-Authenticate'', ''Bearer'')])
      | Inr (Some u) \<Rightarrow>
          if \<not> vp (ul_password cr) (hashed_password u)
          then Inl (HTTPException 401 ''Invalid credentials'' [(''WWW-Authenticate'', ''Bearer'')])
          else map_sum id token_response_of (create_access_token hm st (email u) None t1 t2))"

section \<open>The service as a state machine\<close>

text \<open>
  Requests handled one after another: a registration with any validated body, salt and clock
  readings changes the table as \<open>register\<close> does, whatever it answers; a login leaves it as it
  is.  The settings, the keyed hash and the password hasher are those of the process.
\<close>

inductive service_step :: "hmac \<Rightarrow> settings \<Rightarrow> 's hash_fn \<Rightarrow> db \<Rightarrow> db \<Rightarrow> bool" where
  step_register: "service_step hm st hp d (snd (register hm st hp salt t1 t2 ud d))"
| step_login: "service_step hm st hp d d"
| step_tick: "db_clock d \<le> c \<Longrightarrow> service_step hm st hp d (d\<lparr>db_clock := c\<rparr>)"

inductive reachable :: "hmac \<Rightarrow> settings \<Rightarrow> 's hash_fn \<Rightarrow> db \<Rightarrow> bool" where
  reach_init: "reachable hm st hp db_init"
| reach_step: "reachable hm st hp d \<Longrightarrow> service_step hm st hp d d' \<Longrightarrow> reachable hm st hp d'"

text \<open>The table's invariant: unique emails (the unique index), unique ids, every id drawn
  from the sequence before its current value.\<close>

definition db_inv :: "db \<Rightarrow> bool" where
  "db_inv d \<longleftrightarrow> distinct (map email (users d)) \<and> distinct (map user_id (users d))
                 \<and> (\<forall>u \<in> set (users d). user_id u < id_seq d)"


section \<open>The table as an account store\<close>

text \<open>What the table promises the rest of the service: a finite map from an email to the
  digest stored for it.  \<open>acc_register\<close> is registration on that map (an email that is
  held, or a value too long for its \<open>String(255)\<close> column, leaves it as it is); \<open>acc_step\<close>
  is what one request may do to it: keep it, or add an account for an email it does not hold.\<close>

definition accounts :: "db \<Rightarrow> pystr \<rightharpoonup> pystr" where
  "accounts d = map_of (map (\<lambda>u. (email u, hashed_password u)) (users d))"

definition acc_register :: "(pystr \<rightharpoonup> pystr) \<Rightarrow> pystr \<Rightarrow> pystr \<Rightarrow> pystr \<rightharpoonup> pystr" where
  "acc_register a e h = (if e \<in> dom a \<or> 255 < length e \<or> 255 < length h then a else a(e \<mapsto> h))"

inductive acc_step :: "(pystr \<rightharpoonup> pystr) \<Rightarrow> (pystr \<rightharpoonup> pystr) \<Rightarrow> bool" where
  acc_keep: "acc_step a a"
| acc_add: "e \<notin> dom a \<Longrightarrow> acc_step a (a(e \<mapsto> h))"


section \<open>Properties\<close>

lemma filter_email_distinct:
  "distinct (map email us) \<Longrightarrow> filter (\<lambda>u. email u = e) us = [] \<or> (\<exists>u. filter (\<lambda>u. email u = e) us = [u])"
proof (induction us)
  case (Cons v us)
  show ?case
  proof (cases "email v = e")
    case True
    have "email v \<notin> set (map email us)" using Cons(2) by simp
    then have "\<forall>x \<in> set us. email x \<noteq> e" using True by (metis image_eqI set_map)
    then have "filter (\<lambda>u. email u = e) us = []" by (simp add: filter_empty_conv)
    then show ?thesis using True by simp
  qed (use Cons in simp)
qed simp

lemma find_filter: "find P xs = (case filter P xs of [] \<Rightarrow> None | x # _ \<Rightarrow> Some x)"
  by (induction xs) auto

lemma select_user_inv:
  assumes "db_inv d"
  shows "select_user d e = Inr (find (\<lambda>u. email u = e) (users d))"
proof -
  have "distinct (map email (users d))" using assms by (simp add: db_inv_def)
  then consider "filter (\<lambda>u. email u = e) (users d) = []" | u where "filter (\<lambda>u. email u = e) (users d) = [u]"
    using filter_email_distinct by blast
  then show ?thesis
  proof cases
    case 1
    then have "find (\<lambda>u. email u = e) (users d) = None" by (simp add: find_None_iff filter_empty_conv)
    with 1 show ?thesis by (simp add: select_user_def)
  next
    case 2
    then have "find (\<lambda>u. email u = e) (users d) = Some u" by (simp add: find_filter)
    with 2 show ?thesis by (simp add: select_user_def)
  qed
qed

lemma db_insert_inv:
  assumes "db_inv d"
  shows "db_inv (snd (db_insert d e h))"
  using assms by (auto simp: db_insert_def db_inv_def Let_def)

lemma register_inv:
  assumes "db_inv d"
  shows "db_inv (snd (register hm st hp salt t1 t2 ud d))"
  using assms db_insert_inv [OF assms, of "uc_email ud" "hp salt (uc_password ud)"]
  by (auto simp: register_def split: sum.splits option.splits prod.splits)

lemma find_email_Some: "find (\<lambda>u. email u = e) us = Some u \<Longrightarrow> u \<in> set us \<and> email u = e"
  by (auto simp: find_Some_iff)

lemma find_email_None: "find (\<lambda>u. email u = e) us = None \<longleftrightarrow> e \<notin> email ` set us"
  by (auto simp: find_None_iff)

lemma register_Inr:
  assumes "register hm st hp salt t1 t2 ud d = (Inr r, d')" and "db_inv d"
  shows "\<exists>u. users d' = users d @ [u] \<and> email u = uc_email ud
             \<and> hashed_password u = hp salt (uc_password ud) \<and> uc_email ud \<notin> email ` set (users d)"
  using assms select_user_inv [OF assms(2)]
  by (auto simp: register_def db_insert_def Let_def find_email_None
           split: option.splits sum.splits prod.splits if_splits)

inductive_cases service_stepE: "service_step hm st hp d d'"

lemma service_step_inv: "service_step hm st hp d d' \<Longrightarrow> db_inv d \<Longrightarrow> db_inv d'"
  by (erule service_stepE; (auto intro: register_inv; fail)?) (simp add: db_inv_def)

lemma db_inv_init: "db_inv db_init"
  by (simp add: db_inv_def db_init_def)

lemma dom_accounts: "dom (accounts d) = email ` set (users d)"
  by (simp add: accounts_def dom_map_of_conv_image_fst image_image)

lemma db_insert_accounts:
  "accounts (snd (db_insert d e h)) = acc_register (accounts d) e h"
proof (cases "e \<in> dom (accounts d) \<or> 255 < length e \<or> 255 < length h")
  case True
  then show ?thesis by (auto simp: db_insert_def acc_register_def accounts_def Let_def dom_accounts [unfolded accounts_def])
next
  case False
  then have "e \<notin> email ` set (users d)" by (simp add: dom_accounts)
  with False show ?thesis
    by (auto simp: db_insert_def acc_register_def accounts_def Let_def map_add_def fun_eq_iff
             split: option.splits)
qed

lemma register_accounts:
  assumes "db_inv d"
  shows "accounts (snd (register hm st hp salt t1 t2 ud d))
         = acc_register (accounts d) (uc_email ud) (hp salt (uc_password ud))"
proof (cases "find (\<lambda>u. email u = uc_email ud) (users d)")
  case None
  then show ?thesis using select_user_inv [OF assms]
    by (simp add: register_def db_insert_accounts [symmetric] split: prod.splits sum.splits)
next
  case (Some u)
  then have "u \<in> set (users d)" "email u = uc_email ud" using find_email_Some by blast+
  then have "uc_email ud \<in> dom (accounts d)" unfolding dom_accounts by (metis image_eqI)
  then show ?thesis using Some select_user_inv [OF assms] by (simp add: register_def acc_register_def)
qed

lemma acc_register_step: "acc_step a (acc_register a e h)"
  by (auto simp: acc_register_def intro: acc_step.intros)

lemma service_step_accounts:
  "service_step hm st hp d d' \<Longrightarrow> db_inv d \<Longrightarrow> acc_step (accounts d) (accounts d')"
  by (erule service_stepE; (simp add: register_accounts acc_register_step acc_keep; fail)?)
     (simp add: accounts_def acc_keep)

lemma map_of_find:
  "map_of (map (\<lambda>u. (email u, hashed_password u)) us) e = map_option hashed_password (find (\<lambda>u. email u = e) us)"
  by (induction us) auto

lemma accounts_find: "accounts d e = map_option hashed_password (find (\<lambda>u. email u = e) (users d))"
  by (simp add: accounts_def map_of_find)

lemma select_user_Some: "select_user d e = Inr (Some u) \<Longrightarrow> email u = e \<and> u \<in> set (users d)"
proof -
  assume "select_user d e = Inr (Some u)"
  then have "filter (\<lambda>u. email u = e) (users d) = [u]"
    by (auto simp: select_user_def split: list.splits)
  then have "u \<in> set (filter (\<lambda>u. email u = e) (users d))" by simp
  then show ?thesis by simp
qed

lemma login_Inr:
  assumes "login hm st vp t1 t2 cr d = Inr r"
  shows "\<exists>tok. create_access_token hm st (ul_email cr) None t1 t2 = Inr tok \<and> r = token_response_of tok"
proof -
  obtain u where s: "select_user d (ul_email cr) = Inr (Some u)"
    and c: "map_sum id token_response_of (create_access_token hm st (email u) None t1 t2) = Inr r"
    using assms by (auto simp: login_def split: sum.splits option.splits if_splits)
  have "email u = ul_email cr" using select_user_Some [OF s] by blast
  with c show ?thesis by (cases "create_access_token hm st (email u) None t1 t2") auto
qed

lemma register_Inr_find:
  assumes "register hm st hp salt t1 t2 ud d = (Inr r, d')" and "db_inv d"
  shows "\<exists>u. find (\<lambda>x. email x = uc_email ud) (users d') = Some u \<and> email u = uc_email ud
             \<and> hashed_password u = hp salt (uc_password ud) \<and> db_inv d'"
proof -
  obtain u where u: "users d' = users d @ [u]" "email u = uc_email ud"
    "hashed_password u = hp salt (uc_password ud)" "uc_email ud \<notin> email ` set (users d)"
    using register_Inr [OF assms] by blast
  have "db_inv d'" using register_inv [OF assms(2), of hm st hp salt t1 t2 ud] assms(1) by simp
  moreover have "find (\<lambda>x. email x = uc_email ud) (users d) = None" using u(4) find_email_None by blast
  then have "find (\<lambda>x. email x = uc_email ud) (users d') = Some u" using u(1,2) by (simp add: find_filter split: list.splits)
  ultimately show ?thesis using u(2,3) by blast
qed




text \<open>C14: Every state of the \<open>users\<close> table that a sequence of registrations and logins
  reaches from the empty table has unique emails and unique ids below the sequence value.\<close>

theorem reachable_db_inv: "reachable hm st hp d \<Longrightarrow> db_inv d"
proof (induction rule: reachable.induct)
  case reach_init
  then show ?case by (simp add: db_inv_def db_init_def)
next
  case (reach_step d d')
  then show ?case by (blast intro: service_step_inv)
qed

text \<open>C15: Registering an email that is already in the table answers 400 \<open>Email already
  registered\<close> and leaves the table as it was.\<close>

theorem register_duplicate_email:
  assumes "db_inv d" and "uc_email ud \<in> email ` set (users d)"
  shows "register hm st hp salt t1 t2 ud d = (Inl (HTTPException 400 ''Email already registered'' []), d)"
proof -
  have "find (\<lambda>u. email u = uc_email ud) (users d) \<noteq> None" using assms(2) find_email_None by blast
  then show ?thesis
    using select_user_inv [OF assms(1)] by (auto simp: register_def)
qed

text \<open>C16: A login with an unknown email and a login with a known email and a wrong password raise
  the same exception: status 401, the same detail and the same headers.\<close>

theorem login_failure_uniform:
  assumes inv: "db_inv d"
    and "ul_email c1 \<notin> email ` set (users d)"
    and "u \<in> set (users d)" and "ul_email c2 = email u" and "\<not> vp (ul_password c2) (hashed_password u)"
  shows "login hm st vp t1 t2 c1 d = login hm st vp t1' t2' c2 d"
proof -
  have "find (\<lambda>x. email x = email u) (users d) = Some u"
  proof -
    obtain x where x: "find (\<lambda>x. email x = email u) (users d) = Some x"
      using assms(3) find_email_None by (cases "find (\<lambda>x. email x = email u) (users d)") blast+
    then have "x \<in> set (users d)" "email x = email u" using find_email_Some by blast+
    then have "x = u" using inv assms(3) by (auto simp: db_inv_def intro: inj_onD [OF distinct_map [THEN iffD1, THEN conjunct2]])
    then show ?thesis using x by simp
  qed
  moreover have "find (\<lambda>x. email x = ul_email c1) (users d) = None"
    using assms(2) find_email_None by blast
  ultimately show ?thesis
    using assms(4,5) select_user_inv [OF inv] by (simp add: login_def)
qed

text \<open>C17: After a successful registration, a login with the same email and password issues a
  token for that email, given that the password hasher's digest verifies its password.\<close>

theorem register_then_login:
  assumes inv: "db_inv d" and "register hm st hp salt t1 t2 ud d = (Inr r, d')"
    and "vp (uc_password ud) (hp salt (uc_password ud))"
  shows "login hm st vp t1' t2' \<lparr>ul_email = uc_email ud, ul_password = uc_password ud\<rparr> d'
         = map_sum id token_response_of (create_access_token hm st (uc_email ud) None t1' t2')"
proof -
  obtain u where "find (\<lambda>x. email x = uc_email ud) (users d') = Some u" "email u = uc_email ud"
    "hashed_password u = hp salt (uc_password ud)" "db_inv d'"
    using register_Inr_find [OF assms(2) inv] by blast
  then show ?thesis using select_user_inv [of d'] assms(3) by (simp add: login_def)
qed


text \<open>C20: Refinement: read as an account store, the table follows the abstract store.  Every
  run of the service from a table satisfying the invariant is matched by a run of \<open>acc_step\<close>
  on \<open>accounts\<close> (keep the store, or add an account for a new email), and keeps the invariant.\<close>

theorem service_refines_accounts:
  assumes "(service_step hm st hp)\<^sup>*\<^sup>* d d'" and "db_inv d"
  shows "acc_step\<^sup>*\<^sup>* (accounts d) (accounts d') \<and> db_inv d'"
  using assms
proof (induction rule: rtranclp_induct)
  case (step d1 d2)
  then have "acc_step (accounts d1) (accounts d2)" "db_inv d2"
    using service_step_accounts service_step_inv by blast+
  with step show ?case by (meson rtranclp.rtrancl_into_rtrancl)
qed simp


text \<open>C21: Refinement of \<open>login\<close>: on a table satisfying the invariant, the answer depends on the
  table only through the account store: no account or a digest that does not verify the
  password is the 401, otherwise a token for the email of the request.\<close>

theorem login_accounts:
  assumes "db_inv d"
  shows "login hm st vp t1 t2 cr d =
           (case accounts d (ul_email cr) of
              None \<Rightarrow> Inl (HTTPException 401 ''Invalid credentials'' [(''WWW-Authenticate'', ''Bearer'')])
            | Some h \<Rightarrow>
                if \<not> vp (ul_password cr) h
                then Inl (HTTPException 401 ''Invalid credentials'' [(''WWW-Authenticate'', ''Bearer'')])
                else map_sum id token_response_of (create_access_token hm st (ul_email cr) None t1 t2))"
proof (cases "find (\<lambda>u. email u = ul_email cr) (users d)")
  case None
  then show ?thesis using select_user_inv [OF assms] by (simp add: login_def accounts_find)
next
  case (Some u)
  then have "email u = ul_email cr" using find_email_Some by blast
  with Some show ?thesis using select_user_inv [OF assms] by (simp add: login_def accounts_find)
qed


text \<open>C22: \<open>register\<close> commits the new user before it issues the token.  When issuing fails
  (e.g. the \<open>OverflowError\<close> of a misconfigured lifetime), the request fails with that error,
  the account is nevertheless stored, and registering again answers 400 \<open>Email already
  registered\<close>.\<close>

theorem register_token_failure_commits:
  assumes inv: "db_inv d" and new: "uc_email ud \<notin> dom (accounts d)"
    and "length (uc_email ud) \<le> 255" and "length (hp salt (uc_password ud)) \<le> 255"
    and tk: "create_access_token hm st (uc_email ud) None t1 t2 = Inl e"
  shows "fst (register hm st hp salt t1 t2 ud d) = Inl e
         \<and> accounts (snd (register hm st hp salt t1 t2 ud d)) = (accounts d)(uc_email ud \<mapsto> hp salt (uc_password ud))
         \<and> register hm st hp salt' t1' t2' ud (snd (register hm st hp salt t1 t2 ud d))
             = (Inl (HTTPException 400 ''Email already registered'' []), snd (register hm st hp salt t1 t2 ud d))"
proof -
  define d' where "d' = snd (register hm st hp salt t1 t2 ud d)"
  have none: "find (\<lambda>u. email u = uc_email ud) (users d) = None"
    using new by (simp add: dom_accounts find_email_None)
  have acc: "accounts d' = (accounts d)(uc_email ud \<mapsto> hp salt (uc_password ud))"
    using register_accounts [OF inv, of hm st hp salt t1 t2 ud] new assms(3,4) by (simp add: d'_def acc_register_def)
  have "uc_email ud \<notin> set (map email (users d))" using new by (simp add: dom_accounts)
  then obtain d1 where "db_insert d (uc_email ud) (hp salt (uc_password ud)) = (Inr
               \<lparr>user_id = id_seq d, email = uc_email ud, hashed_password = hp salt (uc_password ud),
                 created_at = db_clock d\<rparr>, d1)"
    using assms(3,4) by (simp add: db_insert_def Let_def)
  then have "fst (register hm st hp salt t1 t2 ud d) = Inl e"
    using none select_user_inv [OF inv] tk by (simp add: register_def)
  moreover have "accounts d' (uc_email ud) = Some (hp salt (uc_password ud))" using acc by simp
  then have "find (\<lambda>u. email u = uc_email ud) (users d') \<noteq> None" by (auto simp: accounts_find)
  then have "register hm st hp salt' t1' t2' ud d' = (Inl (HTTPException 400 ''Email already registered'' []), d')"
    using select_user_inv [OF register_inv [OF inv, of hm st hp salt t1 t2 ud]] by (auto simp: register_def d'_def)
  ultimately show ?thesis using acc by (simp add: d'_def)
qed


text \<open>C23: Composition of \<open>login\<close> and \<open>verify_token\<close>: the token of a successful login
  verifies to the email of the request until the end of the second of its expiry, and not
  afterwards, for a secret that is not itself JSON text.\<close>

theorem login_token_verifies:
  assumes "login hm st vp t1 t2 cr d = Inr r"
    and "expire_time st None t1 = Inr e" and "valid_datetime t2"
    and "isl (loads_key dd (JWT_SECRET st))" and "1 \<le> dd"
  shows "verify_token hm dd st (access_token r) t_nbf t_exp
         = (if timegm_utc e < timegm_utc t_exp then Inr None else Inr (Some (JStr (ul_email cr))))"
proof -
  obtain tok where tok: "create_access_token hm st (ul_email cr) None t1 t2 = Inr tok"
    and r: "r = token_response_of tok"
    using login_Inr [OF assms(1)] by blast
  show ?thesis
    using created_token_jwt_decode [OF tok assms(2-5)] r
    by (simp add: verify_token_def validate_token_claims dict_get_def token_response_of_def)
qed




end
