(* ===== verification/Database.thy ===== *)
theory Database
  imports Routes
begin

text \<open>
  \<open>app/database.py\<close>: the engine, the session factory \<open>SessionLocal\<close>, the request
  dependency \<open>get_db\<close> and \<open>init_db\<close>.  The engine holds the table \<open>users\<close> of
  \<open>Routes\<close> (\<open>None\<close> until \<open>Base.metadata.create_all\<close> has created it) and the
  sessions checked out of its pool and not yet closed, named in the order of their creation.
  \<open>get_db\<close> is a Python generator: its state is the point where it is suspended, and one
  application of \<open>get_db\<close> below is one resumption (\<open>next(gen)\<close> or
  \<open>gen.throw(e)\<close>) with the generator's answer: the session it yields, \<open>StopIteration\<close>
  when its body returns, or the exception it raises.  FastAPI enters a dependency with
  \<open>yield\<close> as contextlib enters a context manager (\<open>with_db\<close>): \<open>next\<close> before the
  route, then \<open>next\<close> again when the route returned and \<open>throw\<close> of the route's exception
  when it raised.
\<close>

record engine =
  tables :: "db option"
  open_sessions :: "nat list"
  session_seq :: nat

text \<open>\<open>create_engine(...)\<close>: no table exists yet and no connection is checked out.\<close>

definition create_engine :: engine where
  "create_engine = \<lparr>tables = None, open_sessions = [], session_seq = 0\<rparr>"

text \<open>\<open>SessionLocal()\<close> opens a session on the engine; \<open>db.close()\<close> returns it to the pool
  and discards what it has not committed (the routes commit every change they make).\<close>

definition session_local :: "engine \<Rightarrow> nat \<times> engine" where
  "session_local e =
     (session_seq e,
      e\<lparr>open_sessions := open_sessions e @ [session_seq e], session_seq := Suc (session_seq e)\<rparr>)"

definition session_close :: "nat \<Rightarrow> engine \<Rightarrow> engine" where
  "session_close s e = e\<lparr>open_sessions := removeAll s (open_sessions e)\<rparr>"

text \<open>\<open>init_db()\<close>: \<open>create_all\<close> creates the tables that do not exist (\<open>checkfirst\<close>) and
  leaves an existing table and its rows as they are.\<close>

definition init_db :: "engine \<Rightarrow> engine" where
  "init_db e = e\<lparr>tables := Some (case tables e of None \<Rightarrow> db_init | Some d \<Rightarrow> d)\<rparr>"

subsection \<open>The generator \<open>get_db\<close>\<close>

datatype gen_state = GenCreated | GenSuspended nat | GenDone

datatype gen_op = Resume | Throw exc

datatype gen_result = Yielded nat | Stopped | Raised exc

text \<open>The body \<open>db = SessionLocal(); try: yield db; finally: db.close()\<close>.  The first
  \<open>next\<close> runs up to the \<open>yield\<close>; resuming it runs the \<open>finally\<close> clause and returns
  (\<open>StopIteration\<close>), and a thrown exception runs the \<open>finally\<close> clause and propagates.
  A generator thrown into before it started, or after it finished, raises the thrown
  exception without running its body; \<open>next\<close> on a finished generator raises
  \<open>StopIteration\<close>.\<close>

fun get_db :: "gen_op \<Rightarrow> gen_state \<Rightarrow> engine \<Rightarrow> gen_result \<times> gen_state \<times> engine" where
  "get_db Resume GenCreated e = (case session_local e of (s, e') \<Rightarrow> (Yielded s, GenSuspended s, e'))"
| "get_db (Throw x) GenCreated e = (Raised x, GenDone, e)"
| "get_db Resume (GenSuspended s) e = (Stopped, GenDone, session_close s e)"
| "get_db (Throw x) (GenSuspended s) e = (Raised x, GenDone, session_close s e)"
| "get_db Resume GenDone e = (Stopped, GenDone, e)"
| "get_db (Throw x) GenDone e = (Raised x, GenDone, e)"

text \<open>A sequence of resumptions of one generator object.\<close>

fun gen_run :: "gen_op list \<Rightarrow> gen_state \<Rightarrow> engine \<Rightarrow> gen_result list \<times> gen_state \<times> engine" where
  "gen_run [] g e = ([], g, e)"
| "gen_run (x # xs) g e =
     (case get_db x g e of (r, g', e') \<Rightarrow> (case gen_run xs g' e' of (rs, g'', e'') \<Rightarrow> (r # rs, g'', e'')))"

fun is_yield :: "gen_result \<Rightarrow> bool" where
  "is_yield (Yielded _) = True"
| "is_yield _ = False"

subsection \<open>The dependency protocol\<close>

text \<open>contextlib's \<open>__exit__\<close>: resume the generator when the body returned, and it must
  stop; throw the body's exception into it, and the exception it raises propagates.  A
  generator that yields again is a \<open>RuntimeError\<close>; one that swallows the thrown exception
  is reported the same way here (\<open>get_db\<close> never does: \<open>get_db_throw\<close>).\<close>

definition exit_db :: "gen_state \<Rightarrow> exc + 'a \<Rightarrow> engine \<Rightarrow> (exc + 'a) \<times> engine" where
  "exit_db g r e =
     (case r of
        Inr v \<Rightarrow>
          (case get_db Resume g e of
             (Stopped, _, e') \<Rightarrow> (Inr v, e')
           | (_, _, e') \<Rightarrow> (Inl RuntimeError, e'))
      | Inl x \<Rightarrow>
          (case get_db (Throw x) g e of
             (Raised y, _, e') \<Rightarrow> (Inl y, e')
           | (_, _, e') \<Rightarrow> (Inl RuntimeError, e')))"

text \<open>A route with the parameter \<open>db: Session = Depends(get_db)\<close>, run against the table
  of the engine (\<open>None\<close> when it does not exist).\<close>

definition with_db ::
  "(db option \<Rightarrow> (exc + 'a) \<times> db option) \<Rightarrow> engine \<Rightarrow> (exc + 'a) \<times> engine" where
  "with_db route e =
     (case get_db Resume GenCreated e of
        (Yielded s, g, e1) \<Rightarrow> (case route (tables e1) of (r, t) \<Rightarrow> exit_db g r (e1\<lparr>tables := t\<rparr>))
      | (_, _, e1) \<Rightarrow> (Inl RuntimeError, e1))"

text \<open>The sessions of the engine are distinct and older than the next one.\<close>

definition engine_inv :: "engine \<Rightarrow> bool" where
  "engine_inv e \<longleftrightarrow> distinct (open_sessions e) \<and> list_all (\<lambda>s. s < session_seq e) (open_sessions e)"

section \<open>Properties\<close>

lemma get_db_throw: "\<exists>g' e'. get_db (Throw x) g e = (Raised x, g', e')"
  by (cases g) auto

lemma gen_run_done:
  "gen_run xs GenDone e = (map (\<lambda>x. case x of Resume \<Rightarrow> Stopped | Throw y \<Rightarrow> Raised y) xs, GenDone, e)"
proof (induction xs)
  case (Cons x xs)
  then show ?case by (cases x) auto
qed simp

lemma session_local_inv:
  assumes "engine_inv e" "session_local e = (s, e')"
  shows "engine_inv e'" "open_sessions e' = open_sessions e @ [s]" "s \<notin> set (open_sessions e)"
  using assms by (auto simp: engine_inv_def session_local_def list_all_iff less_SucI)

lemma session_close_fresh:
  "s \<notin> set xs \<Longrightarrow> open_sessions e = xs @ [s] \<Longrightarrow> open_sessions (session_close s e) = xs"
  by (simp add: session_close_def)

lemma session_close_inv: "engine_inv e \<Longrightarrow> engine_inv (session_close s e)"
  by (auto simp: engine_inv_def session_close_def list_all_iff distinct_removeAll)

lemma engine_inv_tables [simp]: "engine_inv (e\<lparr>tables := t\<rparr>) = engine_inv e"
  by (simp add: engine_inv_def)

lemma init_db_inv [simp]: "engine_inv (init_db e) = engine_inv e"
  by (simp add: init_db_def)

lemma done_no_yield [simp]: "\<not> is_yield (case x of Resume \<Rightarrow> Stopped | Throw y \<Rightarrow> Raised y)"
  by (cases x) auto

lemma gen_run_Cons_step:
  "get_db x g e = (r, g', e') \<Longrightarrow> gen_run (x # xs) g e = (r # fst (gen_run xs g' e'), snd (gen_run xs g' e'))"
  by (simp split: prod.splits)

lemma with_db_eq:
  "with_db route e =
     (case route (tables e) of
        (r, t) \<Rightarrow> (r, session_close (session_seq e) ((snd (session_local e))\<lparr>tables := t\<rparr>)))"
  by (cases "route (tables e)"; cases "fst (route (tables e))")
     (auto simp: with_db_def exit_db_def session_local_def)

lemma with_db_result: "fst (with_db route e) = fst (route (tables e))"
  by (simp add: with_db_eq split: prod.splits)

lemma with_db_tables: "tables (snd (with_db route e)) = snd (route (tables e))"
  by (simp add: with_db_eq split: prod.splits) (simp add: session_close_def session_local_def)

lemma with_db_sessions:
  assumes "engine_inv e"
  shows "open_sessions (snd (with_db route e)) = open_sessions e \<and> engine_inv (snd (with_db route e))"
proof -
  obtain s e1 where sl: "session_local e = (s, e1)" by (metis surj_pair)
  note i = session_local_inv [OF assms sl]
  have s: "s = session_seq e" using sl by (simp add: session_local_def)
  obtain r t where rt: "route (tables e) = (r, t)" by (metis surj_pair)
  have "open_sessions (e1\<lparr>tables := t\<rparr>) = open_sessions e @ [s]" using i by simp
  then show ?thesis
    using i rt sl s by (simp add: with_db_eq session_close_fresh session_close_inv)
qed

section \<open>Claims\<close>

lemma get_db_suspended_close:
  "get_db x (GenSuspended s) e = ((case x of Resume \<Rightarrow> Stopped | Throw y \<Rightarrow> Raised y), GenDone, session_close s e)"
  by (cases x) auto

text \<open>C29: The generator \<open>get_db\<close> terminates and releases what it opened: whatever is done
  with it, after its second resumption (\<open>next\<close>, or \<open>throw\<close> of the route's exception) it
  has finished and stays finished, it has yielded one session at most, and the open sessions
  are those before it started (the \<open>finally\<close> clause runs on both exits).\<close>

theorem get_db_finishes:
  assumes "engine_inv e"
  shows "fst (snd (gen_run (a # b # ops) GenCreated e)) = GenDone
         \<and> open_sessions (snd (snd (gen_run (a # b # ops) GenCreated e))) = open_sessions e
         \<and> length (filter is_yield (fst (gen_run (a # b # ops) GenCreated e))) \<le> 1"
proof (cases a)
  case Resume
  obtain s e1 where sl: "session_local e = (s, e1)" by (metis surj_pair)
  note i = session_local_inv [OF assms sl]
  have st: "get_db Resume GenCreated e = (Yielded s, GenSuspended s, e1)" using sl by simp
  have run: "gen_run (a # b # ops) GenCreated e
      = (Yielded s # (case b of Resume \<Rightarrow> Stopped | Throw y \<Rightarrow> Raised y)
           # map (\<lambda>x. case x of Resume \<Rightarrow> Stopped | Throw y \<Rightarrow> Raised y) ops, GenDone, session_close s e1)"
    using Resume by (simp only: gen_run_Cons_step [OF st] gen_run_Cons_step [OF get_db_suspended_close]
        gen_run_done fst_conv snd_conv)
  show ?thesis unfolding run using i session_close_fresh [of s "open_sessions e" e1] by (simp add: comp_def)
next
  case (Throw x)
  have "get_db (Throw x) GenCreated e = (Raised x, GenDone, e)" by simp
  then have run: "gen_run (a # b # ops) GenCreated e
      = (Raised x # map (\<lambda>x. case x of Resume \<Rightarrow> Stopped | Throw y \<Rightarrow> Raised y) (b # ops), GenDone, e)"
    using Throw by (simp only: gen_run_Cons_step gen_run_done fst_conv snd_conv)
  show ?thesis unfolding run by (simp add: comp_def)
qed

text \<open>C30: A request that depends on \<open>get_db\<close> returns its session to the pool whatever
  the route does: when it returns and when it raises, the open sessions after the request
  are those before it, and the engine invariant is kept.\<close>

theorem with_db_closes:
  assumes "engine_inv e"
  shows "open_sessions (snd (with_db route e)) = open_sessions e \<and> engine_inv (snd (with_db route e))"
  using with_db_sessions [OF assms] .

text \<open>C31: \<open>init_db\<close> creates the table when it is missing and is idempotent: run on an
  engine whose table exists (a restart of the application), it keeps the table and its rows.\<close>

theorem init_db_keeps:
  "tables (init_db e) \<noteq> None \<and> init_db (init_db e) = init_db e
   \<and> (tables e = Some d \<longrightarrow> tables (init_db e) = Some d)"
  by (simp add: init_db_def)

end
