(* ===== verification/App.thy ===== *)
theory App
  imports Database
begin

text \<open>
  \<open>app/main.py\<close>: the FastAPI application with the router of \<open>app/routes/auth.py\<close> and
  the \<open>/health\<close> route, seen from a client, and its lifespan.  A request is one of the three
  JSON endpoints.  For the two routes of the router FastAPI enters the dependency
  \<open>get_db\<close> (\<open>Database.with_db\<close>), validates the body against the route's model (a
  \<open>ValidationError\<close>, before the route runs), runs the route, leaves the dependency, and
  encodes the answer: the route's status code (201 for \<open>/register\<close>, 200 otherwise) and
  the \<open>response_model\<close>, an \<open>HTTPException\<close> as its status, \<open>{"detail": ...}\<close> and
  headers, a \<open>ValidationError\<close> as 422 (FastAPI's handlers, inside the user
  middleware); any other exception escapes to Starlette's outermost
  \<open>ServerErrorMiddleware\<close>, which answers 500 \<open>Internal Server Error\<close>.  The route's first query against a missing table raises
  \<open>ProgrammingError\<close>.  The lifespan runs \<open>init_db\<close> at startup, before the server
  accepts a request, and nothing at shutdown.
\<close>

datatype request = PostRegister json | PostLogin json | GetHealth

datatype resp_body = JsonBody json | ValidationDetail | PlainText pystr | DocsPage pystr | FileBody pystr

record response =
  status :: nat
  body :: resp_body
  resp_headers :: "(pystr \<times> pystr) list"

text \<open>\<open>health_check()\<close>.\<close>

definition health_check :: json where
  "health_check = JObj [(''status'', JStr ''healthy'')]"

text \<open>\<open>TokenResponse\<close> as its JSON body.\<close>

definition token_body :: "token_response \<Rightarrow> json" where
  "token_body r = JObj [(''access_token'', JStr (access_token r)), (''token_type'', JStr (token_type r))]"

text \<open>FastAPI's exception handlers, installed in Starlette's \<open>ExceptionMiddleware\<close> (inside
  the user middleware): an \<open>HTTPException\<close> becomes its status, \<open>{"detail": ...}\<close> and
  headers, a \<open>RequestValidationError\<close> a 422; any other exception is not handled there and
  travels up (\<open>Inl\<close>).\<close>

definition exc_response :: "exc \<Rightarrow> exc + response" where
  "exc_response e =
     (case e of
        HTTPException code detail hs \<Rightarrow>
          Inr \<lparr>status = code, body = JsonBody (JObj [(''detail'', JStr detail)]), resp_headers = hs\<rparr>
      | ValidationError \<Rightarrow> Inr \<lparr>status = 422, body = ValidationDetail, resp_headers = []\<rparr>
      | _ \<Rightarrow> Inl e)"

definition ok_response :: "nat \<Rightarrow> token_response \<Rightarrow> response" where
  "ok_response code r = \<lparr>status = code, body = JsonBody (token_body r), resp_headers = []\<rparr>"

definition encode_result :: "exc + response \<Rightarrow> exc + response" where
  "encode_result r = (case r of Inl e \<Rightarrow> exc_response e | Inr v \<Rightarrow> Inr v)"

text \<open>Starlette's \<open>ServerErrorMiddleware\<close>, the outermost layer: an exception that reached
  it is answered 500 \<open>Internal Server Error\<close>.\<close>

definition server_error :: "exc + response \<Rightarrow> response" where
  "server_error r =
     (case r of Inl _ \<Rightarrow> \<lparr>status = 500, body = PlainText ''Internal Server Error'', resp_headers = []\<rparr>
      | Inr v \<Rightarrow> v)"

text \<open>A route's work on the table, which raises at its first query when the table is
  missing.\<close>

definition on_table :: "(db \<Rightarrow> (exc + 'a) \<times> db) \<Rightarrow> db option \<Rightarrow> (exc + 'a) \<times> db option" where
  "on_table f t = (case t of None \<Rightarrow> (Inl ProgrammingError, None) | Some d \<Rightarrow> (case f d of (r, d') \<Rightarrow> (r, Some d')))"

text \<open>The body validation and the route inside the dependency; \<open>salt\<close> and the clock
  readings are those of this request.\<close>

definition app_route ::
  "hmac \<Rightarrow> settings \<Rightarrow> email_validator \<Rightarrow> 's hash_fn \<Rightarrow> verify_fn \<Rightarrow> 's \<Rightarrow> int \<Rightarrow> int
   \<Rightarrow> request \<Rightarrow> db option \<Rightarrow> (exc + response) \<times> db option" where
  "app_route hm st ev hp vp salt t1 t2 req t =
     (case req of
        PostRegister b \<Rightarrow>
          (case validate_user_create ev b of
             Inl e \<Rightarrow> (Inl e, t)
           | Inr ud \<Rightarrow>
               on_table (\<lambda>d. case register hm st hp salt t1 t2 ud d of
                               (r, d') \<Rightarrow> (map_sum id (ok_response 201) r, d')) t)
      | PostLogin b \<Rightarrow>
          (case validate_user_login ev b of
             Inl e \<Rightarrow> (Inl e, t)
           | Inr cr \<Rightarrow> on_table (\<lambda>d. (map_sum id (ok_response 200) (login hm st vp t1 t2 cr d), d)) t)
      | GetHealth \<Rightarrow> (Inr \<lparr>status = 200, body = JsonBody health_check, resp_headers = []\<rparr>, t))"

text \<open>One request served by the running application below the user middleware: the answer,
  or the unhandled exception on its way to \<open>server_error\<close>.  \<open>/health\<close> has no
  dependency.\<close>

definition serve_request ::
  "hmac \<Rightarrow> settings \<Rightarrow> email_validator \<Rightarrow> 's hash_fn \<Rightarrow> verify_fn \<Rightarrow> 's \<Rightarrow> int \<Rightarrow> int
   \<Rightarrow> request \<Rightarrow> engine \<Rightarrow> (exc + response) \<times> engine" where
  "serve_request hm st ev hp vp salt t1 t2 req e =
     (case req of
        GetHealth \<Rightarrow> (Inr \<lparr>status = 200, body = JsonBody health_check, resp_headers = []\<rparr>, e)
      | _ \<Rightarrow> (case with_db (app_route hm st ev hp vp salt t1 t2 req) e of
               (r, e') \<Rightarrow> (encode_result r, e')))"

subsection \<open>The server and its lifespan\<close>

datatype phase = Down | Up

text \<open>\<open>lifespan\<close>: \<open>init_db()\<close> before the \<open>yield\<close>, nothing after it.\<close>

definition lifespan_startup :: "engine \<Rightarrow> engine" where
  "lifespan_startup e = init_db e"

definition lifespan_shutdown :: "engine \<Rightarrow> engine" where
  "lifespan_shutdown e = e"

text \<open>The server process over time: it starts (the lifespan's startup half), serves requests
  one at a time, and stops; it may be started again on the same database.\<close>

inductive app_reach ::
  "hmac \<Rightarrow> settings \<Rightarrow> email_validator \<Rightarrow> 's hash_fn \<Rightarrow> verify_fn \<Rightarrow> phase \<times> engine \<Rightarrow> bool"
  for hm st ev hp vp where
  app_init: "app_reach hm st ev hp vp (Down, create_engine)"
| app_start: "app_reach hm st ev hp vp (Down, e) \<Longrightarrow> app_reach hm st ev hp vp (Up, lifespan_startup e)"
| app_serve: "app_reach hm st ev hp vp (Up, e) \<Longrightarrow>
    app_reach hm st ev hp vp (Up, snd (serve_request hm st ev hp vp salt t1 t2 req e))"
| app_stop: "app_reach hm st ev hp vp (Up, e) \<Longrightarrow> app_reach hm st ev hp vp (Down, lifespan_shutdown e)"

inductive_cases app_reachE: "app_reach hm st ev hp vp s"

text \<open>The invariant of the running system: no session is left open between requests, and
  the table, once created, keeps the invariant of \<open>Routes\<close>.\<close>

definition app_inv :: "phase \<times> engine \<Rightarrow> bool" where
  "app_inv s \<longleftrightarrow> engine_inv (snd s) \<and> open_sessions (snd s) = []
     \<and> (case tables (snd s) of None \<Rightarrow> fst s = Down | Some d \<Rightarrow> db_inv d)"

section \<open>Properties\<close>

lemma validate_user_create_Inl: "validate_user_create ev b = Inl e \<Longrightarrow> e = ValidationError"
  by (auto simp: validate_user_create_def split: json.splits option.splits prod.splits sum.splits)

lemma validate_user_login_Inl: "validate_user_login ev b = Inl e \<Longrightarrow> e = ValidationError"
  by (auto simp: validate_user_login_def split: json.splits option.splits prod.splits)

lemma on_table_None: "snd (on_table f None) = None"
  by (simp add: on_table_def)

lemma on_table_Some: "snd (on_table f (Some d)) = Some (snd (f d))"
  by (simp add: on_table_def split: prod.splits)

lemma register_step: "register hm st hp salt t1 t2 ud d = (r, d') \<Longrightarrow> service_step hm st hp d d'"
  by (metis snd_conv step_register)

text \<open>On an existing table, a request of the application is one step of the service
  relation of \<open>Routes\<close>; on a missing one it creates nothing.\<close>

lemma app_route_step:
  "\<exists>d'. snd (app_route hm st ev hp vp salt t1 t2 req (Some d)) = Some d' \<and> service_step hm st hp d d'"
proof (cases req)
  case (PostRegister b)
  then show ?thesis
    by (cases "validate_user_create ev b")
       (auto simp: app_route_def on_table_Some step_login intro: register_step split: prod.splits)
next
  case (PostLogin b)
  then show ?thesis
    by (cases "validate_user_login ev b") (auto simp: app_route_def on_table_Some step_login)
qed (auto simp: app_route_def step_login)

lemma app_route_None: "snd (app_route hm st ev hp vp salt t1 t2 req None) = None"
  by (auto simp: app_route_def on_table_None split: request.splits sum.splits)

lemma serve_request_tables:
  "tables (snd (serve_request hm st ev hp vp salt t1 t2 req e))
   = snd (app_route hm st ev hp vp salt t1 t2 req (tables e))"
  by (cases req) (simp_all add: serve_request_def prod.case_eq_if with_db_tables, simp add: app_route_def)

lemma serve_request_sessions:
  assumes "engine_inv e"
  shows "open_sessions (snd (serve_request hm st ev hp vp salt t1 t2 req e)) = open_sessions e
         \<and> engine_inv (snd (serve_request hm st ev hp vp salt t1 t2 req e))"
  using with_db_sessions [OF assms, of "app_route hm st ev hp vp salt t1 t2 req"] assms
  by (cases req) (simp_all add: serve_request_def prod.case_eq_if)

lemma serve_request_result:
  "req \<noteq> GetHealth \<Longrightarrow>
   fst (serve_request hm st ev hp vp salt t1 t2 req e) = encode_result (fst (app_route hm st ev hp vp salt t1 t2 req (tables e)))"
  using with_db_result [of "app_route hm st ev hp vp salt t1 t2 req" e]
  by (cases req) (simp_all add: serve_request_def prod.case_eq_if)

lemma app_route_invalid:
  assumes "req = PostRegister b \<and> isl (validate_user_create ev b) \<or> req = PostLogin b \<and> isl (validate_user_login ev b)"
  shows "app_route hm st ev hp vp salt t1 t2 req t = (Inl ValidationError, t)"
proof -
  from assms consider (r) e where "req = PostRegister b" "validate_user_create ev b = Inl e"
    | (l) e where "req = PostLogin b" "validate_user_login ev b = Inl e"
    by (metis sum.collapse(1))
  then show ?thesis
  proof cases
    case r
    then show ?thesis using validate_user_create_Inl [OF r(2)] by (simp add: app_route_def)
  next
    case l
    then show ?thesis using validate_user_login_Inl [OF l(2)] by (simp add: app_route_def)
  qed
qed

section \<open>Claims\<close>

text \<open>C27: A \<open>/register\<close> or \<open>/login\<close> request whose body the schema refuses is answered 422
  by FastAPI's validation handler, not the 400 that the docstring of \<open>register\<close> announces;
  it leaves the table as it was (the route does not run) and returns its session.\<close>

theorem serve_invalid_body:
  assumes "req = PostRegister b \<and> isl (validate_user_create ev b) \<or> req = PostLogin b \<and> isl (validate_user_login ev b)"
    and "engine_inv e"
  shows "fst (serve_request hm st ev hp vp salt t1 t2 req e) = Inr \<lparr>status = 422, body = ValidationDetail, resp_headers = []\<rparr>
         \<and> tables (snd (serve_request hm st ev hp vp salt t1 t2 req e)) = tables e
         \<and> open_sessions (snd (serve_request hm st ev hp vp salt t1 t2 req e)) = open_sessions e"
proof -
  have r: "app_route hm st ev hp vp salt t1 t2 req t = (Inl ValidationError, t)" for t
    using app_route_invalid [OF assms(1)] .
  have "req \<noteq> GetHealth" using assms(1) by auto
  then show ?thesis
    using serve_request_result [of req hm st ev hp vp salt t1 t2 e] r [of "tables e"]
      serve_request_tables [of hm st ev hp vp salt t1 t2 req e]
      serve_request_sessions [OF assms(2), of hm st ev hp vp salt t1 t2 req]
    by (simp add: encode_result_def exc_response_def)
qed

text \<open>C28: Every request the application serves on an existing table changes it as one step
  of the service relation of \<open>Routes\<close>, so the invariants proved there hold of every table
  the application reaches.\<close>

theorem serve_request_step:
  assumes "tables e = Some d"
  shows "\<exists>d'. tables (snd (serve_request hm st ev hp vp salt t1 t2 req e)) = Some d' \<and> service_step hm st hp d d'"
  using app_route_step assms by (simp add: serve_request_tables)

text \<open>C32: In every state of the server, no session is open between requests and the table
  keeps its invariant; while the server is up the table exists, because the lifespan runs
  \<open>init_db\<close> before the first request.\<close>

theorem app_reach_inv: "app_reach hm st ev hp vp s \<Longrightarrow> app_inv s"
proof (induction rule: app_reach.induct)
  case app_init
  then show ?case by (simp add: app_inv_def engine_inv_def create_engine_def)
next
  case (app_start e)
  then show ?case using db_inv_init
    by (auto simp: app_inv_def lifespan_startup_def init_db_def split: option.splits)
next
  case (app_serve e salt t1 t2 req)
  obtain d where d: "tables e = Some d" "db_inv d" using app_serve.IH
    by (auto simp: app_inv_def split: option.splits)
  obtain d' where "tables (snd (serve_request hm st ev hp vp salt t1 t2 req e)) = Some d'"
      "service_step hm st hp d d'"
    using app_route_step [of hm st ev hp vp salt t1 t2 req d] d(1) by (auto simp: serve_request_tables)
  moreover have "engine_inv e" "open_sessions e = []" using app_serve.IH by (auto simp: app_inv_def)
  ultimately show ?case
    using serve_request_sessions [of e hm st ev hp vp salt t1 t2 req] service_step_inv d(2)
    by (auto simp: app_inv_def)
next
  case (app_stop e)
  then show ?case by (auto simp: app_inv_def lifespan_shutdown_def split: option.splits)
qed

text \<open>C33: Once the server is up, a valid registration of an email the table does not hold
  is stored by the request that carries it, whatever the token issuing then does: the
  account with the hashed password is in the table afterwards.\<close>

theorem serve_register_stores:
  assumes "app_inv (Up, e)" and "tables e = Some d" and "validate_user_create ev b = Inr ud"
    and "uc_email ud \<notin> dom (accounts d)" and "length (uc_email ud) \<le> 255"
    and "length (hp salt (uc_password ud)) \<le> 255"
  shows "\<exists>d'. tables (snd (serve_request hm st ev hp vp salt t1 t2 (PostRegister b) e)) = Some d'
              \<and> accounts d' (uc_email ud) = Some (hp salt (uc_password ud))"
proof -
  have inv: "db_inv d" using assms(1,2) by (simp add: app_inv_def)
  have "tables (snd (serve_request hm st ev hp vp salt t1 t2 (PostRegister b) e))
        = Some (snd (register hm st hp salt t1 t2 ud d))"
    using assms(2,3) by (simp add: serve_request_tables app_route_def on_table_Some prod.case_eq_if)
  moreover have "accounts (snd (register hm st hp salt t1 t2 ud d)) (uc_email ud) = Some (hp salt (uc_password ud))"
    using register_accounts [OF inv, of hm st hp salt t1 t2 ud] assms(4-6) by (simp add: acc_register_def)
  ultimately show ?thesis by blast
qed

end
