(* ===== verification/Cors.thy ===== *)
theory Cors
  imports App "HOL-Library.AList"
begin

text \<open>
  The CORS configuration of \<open>app/main.py\<close> (\<open>app.add_middleware(CORSMiddleware, ...)\<close>) and
  the middleware it configures, Starlette's \<open>CORSMiddleware\<close>: its constructor, which turns
  the configuration into the fixed headers of simple and preflight responses, its
  \<open>preflight_response\<close>, the headers it adds to a simple response, and its dispatch.  Header
  dictionaries are association lists in insertion order; \<open>AList.update\<close> is the assignment
  \<open>d[k] = v\<close> of a Python \<open>dict\<close> (in place for a present key, appended otherwise).
  Request headers come as the server receives them, with lower-case names; the response
  headers are lower-cased as Starlette's \<open>Headers\<close> store them.
\<close>

type_synonym headers = "(pystr \<times> pystr) list"

record cors_config =
  allow_origins :: "pystr list"
  allow_methods :: "pystr list"
  allow_headers :: "pystr list"
  allow_credentials :: bool
  expose_headers :: "pystr list"
  max_age :: nat

text \<open>The keyword defaults of \<open>CORSMiddleware.__init__\<close>.\<close>

definition cors_defaults :: cors_config where
  "cors_defaults = \<lparr>allow_origins = [], allow_methods = [''GET''], allow_headers = [],
                    allow_credentials = False, expose_headers = [], max_age = 600\<rparr>"

text \<open>The application's configuration.\<close>

definition app_cors :: cors_config where
  "app_cors = cors_defaults\<lparr>allow_origins := [''*''], allow_credentials := True,
                            allow_methods := [''*''], allow_headers := [''*'']\<rparr>"

definition all_methods :: "pystr list" where
  "all_methods = [''DELETE'', ''GET'', ''HEAD'', ''OPTIONS'', ''PATCH'', ''POST'', ''PUT'']"

definition safelisted_headers :: "pystr list" where
  "safelisted_headers = [''Accept'', ''Accept-Language'', ''Content-Language'', ''Content-Type'']"

text \<open>\<open>str.lower()\<close> on the modelled code points: A..Z and U+00C0..U+00DE except U+00D7.\<close>

definition py_lower_char :: "char \<Rightarrow> char" where
  "py_lower_char c =
     (let n = of_char c :: nat in
      if 65 \<le> n \<and> n \<le> 90 \<or> 192 \<le> n \<and> n \<le> 222 \<and> n \<noteq> 215 then char_of (n + 32) else c)"

definition py_lower :: "pystr \<Rightarrow> pystr" where
  "py_lower s = map py_lower_char s"

record cors_mw =
  mw_allow_origins :: "pystr list"
  mw_allow_methods :: "pystr list"
  mw_allow_headers :: "pystr list"
  allow_all_origins :: bool
  allow_all_headers :: bool
  preflight_explicit_allow_origin :: bool
  simple_headers :: headers
  preflight_headers :: headers

text \<open>\<open>CORSMiddleware.__init__\<close> (no \<open>allow_origin_regex\<close>: the application sets none).\<close>

definition cors_init :: "cors_config \<Rightarrow> cors_mw" where
  "cors_init c =
     (let methods = (if ''*'' \<in> set (allow_methods c) then all_methods else allow_methods c);
          all_o = (''*'' \<in> set (allow_origins c));
          all_h = (''*'' \<in> set (allow_headers c));
          explicit = (\<not> all_o \<or> allow_credentials c);
          sh0 = (if all_o then [(''Access-Control-Allow-Origin'', ''*'')] else []);
          sh1 = (if allow_credentials c then AList.update ''Access-Control-Allow-Credentials'' ''true'' sh0 else sh0);
          sh = (if expose_headers c \<noteq> []
                then AList.update ''Access-Control-Expose-Headers'' (str_join '', '' (expose_headers c)) sh1
                else sh1);
          ph0 = (if explicit then [(''Vary'', ''Origin'')] else [(''Access-Control-Allow-Origin'', ''*'')]);
          ph1 = AList.update ''Access-Control-Max-Age'' (nat_repr (max_age c))
                  (AList.update ''Access-Control-Allow-Methods'' (str_join '', '' methods) ph0);
          hdrs = sort (remdups (safelisted_headers @ allow_headers c));
          ph2 = (if hdrs \<noteq> [] \<and> \<not> all_h
                 then AList.update ''Access-Control-Allow-Headers'' (str_join '', '' hdrs) ph1 else ph1);
          ph = (if allow_credentials c then AList.update ''Access-Control-Allow-Credentials'' ''true'' ph2 else ph2)
      in \<lparr>mw_allow_origins = allow_origins c, mw_allow_methods = methods, mw_allow_headers = map py_lower hdrs,
          allow_all_origins = all_o, allow_all_headers = all_h, preflight_explicit_allow_origin = explicit,
          simple_headers = sh, preflight_headers = ph\<rparr>)"

definition is_allowed_origin :: "cors_mw \<Rightarrow> pystr \<Rightarrow> bool" where
  "is_allowed_origin mw origin \<longleftrightarrow> allow_all_origins mw \<or> origin \<in> set (mw_allow_origins mw)"

definition lower_keys :: "headers \<Rightarrow> headers" where
  "lower_keys hs = map (\<lambda>(k, v). (py_lower k, v)) hs"

text \<open>\<open>preflight_response\<close>: the origin, the requested method and the requested headers
  (\<open>None\<close> when the request has no \<open>access-control-request-headers\<close>).\<close>

definition preflight_response :: "cors_mw \<Rightarrow> pystr \<Rightarrow> pystr \<Rightarrow> pystr option \<Rightarrow> response" where
  "preflight_response mw origin rm rh =
     (let h0 = preflight_headers mw;
          ok_o = is_allowed_origin mw origin;
          h1 = (if ok_o \<and> preflight_explicit_allow_origin mw
                then AList.update ''Access-Control-Allow-Origin'' origin h0 else h0);
          f_o = (if ok_o then [] else [''origin'']);
          f_m = (if rm \<in> set (mw_allow_methods mw) then [] else [''method'']);
          (h2, f_h) =
            (case rh of
               None \<Rightarrow> (h1, [])
             | Some r \<Rightarrow>
                 if allow_all_headers mw then (AList.update ''Access-Control-Allow-Headers'' r h1, [])
                 else (h1, if list_all (\<lambda>h. py_strip h \<in> set (mw_allow_headers mw)) (map py_lower (split_on CHR '','' r))
                           then [] else [''headers'']));
          fs = f_o @ f_m @ f_h
      in if fs \<noteq> []
         then \<lparr>status = 400, body = PlainText (''Disallowed CORS '' @ str_join '', '' fs), resp_headers = lower_keys h2\<rparr>
         else \<lparr>status = 200, body = PlainText ''OK'', resp_headers = lower_keys h2\<rparr>)"

text \<open>\<open>MutableHeaders.add_vary_header\<close> and \<open>allow_explicit_origin\<close>.\<close>

definition add_vary :: "headers \<Rightarrow> pystr \<Rightarrow> headers" where
  "add_vary h v = AList.update ''vary'' (case map_of h ''vary'' of None \<Rightarrow> v | Some ex \<Rightarrow> ex @ '', '' @ v) h"

definition allow_explicit_origin :: "headers \<Rightarrow> pystr \<Rightarrow> headers" where
  "allow_explicit_origin h origin = add_vary (AList.update ''access-control-allow-origin'' origin h) ''Origin''"

text \<open>\<open>send\<close> of a simple response: the response's headers updated with the simple
  headers, and the origin made explicit when the request carries a cookie under
  \<open>allow_origins=["*"]\<close>, or when the origin is one of the listed ones.\<close>

definition simple_response_headers :: "cors_mw \<Rightarrow> pystr \<Rightarrow> bool \<Rightarrow> headers \<Rightarrow> headers" where
  "simple_response_headers mw origin has_cookie h =
     (let h1 = foldl (\<lambda>acc (k, v). AList.update (py_lower k) v acc) h (simple_headers mw)
      in if allow_all_origins mw \<and> has_cookie then allow_explicit_origin h1 origin
         else if \<not> allow_all_origins mw \<and> is_allowed_origin mw origin then allow_explicit_origin h1 origin
         else h1)"

text \<open>\<open>CORSMiddleware.__call__\<close> around the application \<open>app\<close> (a request of method
  \<open>meth\<close> with headers \<open>hs\<close>, on the application's state \<open>e\<close>).  The application's
  answer is a response, or an exception that no inner layer handled: the middleware's
  \<open>send\<close> only sees responses, so such an exception passes through it unchanged.\<close>

definition cors_call ::
  "cors_mw \<Rightarrow> pystr \<Rightarrow> headers \<Rightarrow> ('e \<Rightarrow> (exc + response) \<times> 'e) \<Rightarrow> 'e \<Rightarrow> (exc + response) \<times> 'e" where
  "cors_call mw meth hs app e =
     (case map_of hs ''origin'' of
        None \<Rightarrow> app e
      | Some origin \<Rightarrow>
          (case map_of hs ''access-control-request-method'' of
             Some rm \<Rightarrow>
               if meth = ''OPTIONS''
               then (Inr (preflight_response mw origin rm (map_of hs ''access-control-request-headers'')), e)
               else (case app e of (r, e') \<Rightarrow>
                       (map_sum id (\<lambda>v. v\<lparr>resp_headers :=
                          simple_response_headers mw origin (map_of hs ''cookie'' \<noteq> None) (resp_headers v)\<rparr>) r, e'))
           | None \<Rightarrow>
               (case app e of (r, e') \<Rightarrow>
                  (map_sum id (\<lambda>v. v\<lparr>resp_headers :=
                     simple_response_headers mw origin (map_of hs ''cookie'' \<noteq> None) (resp_headers v)\<rparr>) r, e'))))"

section \<open>Properties\<close>

text \<open>The middleware the application configures.\<close>

lemma app_mw:
  "cors_init app_cors =
     \<lparr>mw_allow_origins = [''*''], mw_allow_methods = all_methods,
      mw_allow_headers = [''*'', ''accept'', ''accept-language'', ''content-language'', ''content-type''],
      allow_all_origins = True, allow_all_headers = True, preflight_explicit_allow_origin = True,
      simple_headers = [(''Access-Control-Allow-Origin'', ''*''), (''Access-Control-Allow-Credentials'', ''true'')],
      preflight_headers =
        [(''Vary'', ''Origin''), (''Access-Control-Allow-Methods'', ''DELETE, GET, HEAD, OPTIONS, PATCH, POST, PUT''),
         (''Access-Control-Max-Age'', ''600''), (''Access-Control-Allow-Credentials'', ''true'')]\<rparr>"
  by code_simp

lemma lower_names [simp]:
  "py_lower ''Vary'' = ''vary''"
  "py_lower ''Access-Control-Allow-Methods'' = ''access-control-allow-methods''"
  "py_lower ''Access-Control-Max-Age'' = ''access-control-max-age''"
  "py_lower ''Access-Control-Allow-Credentials'' = ''access-control-allow-credentials''"
  "py_lower ''Access-Control-Allow-Origin'' = ''access-control-allow-origin''"
  "py_lower ''Access-Control-Allow-Headers'' = ''access-control-allow-headers''"
  by code_simp+

text \<open>A preflight is answered with the requesting origin and the credentials flag, whatever
  it asks for; it is answered 200 when its method is one of the methods.\<close>

lemma preflight_app_headers:
  "map_of (resp_headers (preflight_response (cors_init app_cors) origin rm rh)) ''access-control-allow-origin'' = Some origin
   \<and> map_of (resp_headers (preflight_response (cors_init app_cors) origin rm rh)) ''access-control-allow-credentials''
       = Some ''true''"
  by (cases rh) (simp_all add: app_mw preflight_response_def is_allowed_origin_def lower_keys_def Let_def)

lemma preflight_app_status:
  "rm \<in> set all_methods \<Longrightarrow> status (preflight_response (cors_init app_cors) origin rm rh) = 200"
  by (cases rh) (simp_all add: app_mw preflight_response_def is_allowed_origin_def)

lemma simple_app:
  "map_of (simple_response_headers (cors_init app_cors) origin True h) ''access-control-allow-origin'' = Some origin
   \<and> map_of (simple_response_headers (cors_init app_cors) origin True h) ''access-control-allow-credentials'' = Some ''true''"
  by (simp add: app_mw simple_response_headers_def allow_explicit_origin_def add_vary_def update_conv')

lemma map_sum_Inr_iff: "map_sum f g x = Inr r \<longleftrightarrow> (\<exists>v. x = Inr v \<and> r = g v)"
  by (cases x) auto

section \<open>Claims\<close>

text \<open>C34: With the application's CORS configuration every origin is granted credentialed
  access: a preflight from any origin is answered by the middleware, and every response to a
  preflight, or to a request that carries a cookie, from any origin carries the requesting
  origin itself in \<open>access-control-allow-origin\<close> together with
  \<open>access-control-allow-credentials: true\<close>.  The wildcard \<open>allow_origins=["*"]\<close> does
  not stay a wildcard once credentials are allowed.  (A 500 of \<open>ServerErrorMiddleware\<close>
  is produced outside the middleware and carries neither.)\<close>

theorem app_cors_credentials_any_origin:
  assumes "map_of hs ''origin'' = Some origin"
    and "meth = ''OPTIONS'' \<and> map_of hs ''access-control-request-method'' \<noteq> None \<or> map_of hs ''cookie'' \<noteq> None"
  shows "(meth = ''OPTIONS'' \<and> map_of hs ''access-control-request-method'' \<noteq> None
            \<longrightarrow> \<not> isl (fst (cors_call (cors_init app_cors) meth hs app e)))
         \<and> (\<forall>r. fst (cors_call (cors_init app_cors) meth hs app e) = Inr r \<longrightarrow>
              map_of (resp_headers r) ''access-control-allow-origin'' = Some origin
              \<and> map_of (resp_headers r) ''access-control-allow-credentials'' = Some ''true'')"
proof (cases "meth = ''OPTIONS'' \<and> map_of hs ''access-control-request-method'' \<noteq> None")
  case True
  then obtain rm where "map_of hs ''access-control-request-method'' = Some rm" by blast
  then show ?thesis using True assms(1) preflight_app_headers by (simp add: cors_call_def sum.disc)
next
  case False
  then have c: "map_of hs ''cookie'' \<noteq> None" using assms(2) by auto
  show ?thesis using False assms(1) c simple_app
    by (auto simp: cors_call_def map_sum_Inr_iff split: option.splits prod.splits)
qed

end
