(* ===== verification/Http.thy ===== *)
theory Http
  imports Cors
begin

text \<open>
  The application as an HTTP server: the route table that \<open>app/main.py\<close> and
  \<open>app/routes/auth.py\<close> build, Starlette's router over it, FastAPI's reading of the
  request body, the \<open>StaticFiles\<close> mount, and the whole stack under the CORS middleware.
  The route table is, in order of registration: the documentation routes FastAPI adds when
  the application is constructed (\<open>/openapi.json\<close>, \<open>/docs\<close>,
  \<open>/docs/oauth2-redirect\<close>, \<open>/redoc\<close>), the router's \<open>/register\<close> and \<open>/login\<close>
  (\<open>app.include_router\<close>), the \<open>/static\<close> mount when the directory exists, and
  \<open>/health\<close>.  A route's path is compiled by Starlette to a regular expression anchored with
  \<open>$\<close>, which in Python also matches before a final newline of the (percent-decoded)
  request path.
\<close>

section \<open>Routes and matching\<close>

text \<open>The endpoints behind the routes.\<close>

datatype endpoint =
    EpRegister \<comment> \<open>\<open>register\<close> of \<open>app/routes/auth.py\<close>\<close>
  | EpLogin \<comment> \<open>\<open>login\<close>\<close>
  | EpHealth \<comment> \<open>\<open>health_check\<close>\<close>
  | EpDocs pystr \<comment> \<open>a documentation page FastAPI generates, by its path\<close>
  | EpStatic \<comment> \<open>the \<open>StaticFiles\<close> application of the mount\<close>

text \<open>A route: a path with its methods (\<open>None\<close>: every method) and endpoint, or a mount
  with its prefix.\<close>

datatype route = Route pystr "pystr list option" endpoint | Mount pystr endpoint

text \<open>\<open>Match.NONE\<close>, \<open>Match.PARTIAL\<close> (the path matches, the method does not; the route's
  methods) and \<open>Match.FULL\<close> (with the remaining path of a mount).\<close>

datatype rmatch = MNone | MPartial "pystr list" | MFull endpoint pystr

definition newline :: char where
  "newline = CHR 0x0A"

text \<open>\<open>re.match("^" + re.escape(p) + "$", s)\<close>.\<close>

definition path_matches :: "pystr \<Rightarrow> pystr \<Rightarrow> bool" where
  "path_matches p s \<longleftrightarrow> s = p \<or> s = p @ [newline]"

text \<open>\<open>re.match("^" + re.escape(p) + "/(?P<path>.*)$", s)\<close>: the group of the match, if any
  (\<open>.\<close> does not match a newline).\<close>

definition mount_rest :: "pystr \<Rightarrow> pystr \<Rightarrow> pystr option" where
  "mount_rest p s =
     (if take (length p + 1) s = p @ ''/'' then
        (let r = drop (length p + 1) s in
         if newline \<notin> set r then Some r
         else if r \<noteq> [] \<and> last r = newline \<and> newline \<notin> set (butlast r) then Some (butlast r)
         else None)
      else None)"

text \<open>\<open>Route.matches\<close> and \<open>Mount.matches\<close> for an HTTP request.\<close>

fun route_matches :: "route \<Rightarrow> pystr \<Rightarrow> pystr \<Rightarrow> rmatch" where
  "route_matches (Route p ms ep) m s =
     (if path_matches p s then
        (case ms of None \<Rightarrow> MFull ep [] | Some ms' \<Rightarrow> if m \<in> set ms' then MFull ep [] else MPartial ms')
      else MNone)"
| "route_matches (Mount p ep) m s = (case mount_rest p s of Some r \<Rightarrow> MFull ep r | None \<Rightarrow> MNone)"

text \<open>The loop of \<open>Router.app\<close>: the first full match wins; otherwise the first partial
  match is remembered.\<close>

fun router_match :: "route list \<Rightarrow> pystr \<Rightarrow> pystr \<Rightarrow> pystr list option \<Rightarrow> rmatch" where
  "router_match [] m s partial = (case partial of None \<Rightarrow> MNone | Some ms \<Rightarrow> MPartial ms)"
| "router_match (r # rs) m s partial =
     (case route_matches r m s of
        MFull ep c \<Rightarrow> MFull ep c
      | MPartial ms \<Rightarrow> router_match rs m s (case partial of None \<Rightarrow> Some ms | Some p \<Rightarrow> Some p)
      | MNone \<Rightarrow> router_match rs m s partial)"

datatype dispatch = Endpoint endpoint pystr | MethodNotAllowed "pystr list" | RedirectTo pystr | NoRoute

definition rstrip_slash :: "pystr \<Rightarrow> pystr" where
  "rstrip_slash s = rev (dropWhile (\<lambda>c. c = CHR ''/'') (rev s))"

text \<open>\<open>Router.app\<close>: a full match runs its endpoint, a partial one answers 405; with no
  match, the path with its trailing slash removed or added is tried
  (\<open>redirect_slashes\<close>), and a route matching that is a redirect; otherwise 404.\<close>

definition router_dispatch :: "route list \<Rightarrow> pystr \<Rightarrow> pystr \<Rightarrow> dispatch" where
  "router_dispatch rs m s =
     (case router_match rs m s None of
        MFull ep c \<Rightarrow> Endpoint ep c
      | MPartial ms \<Rightarrow> MethodNotAllowed ms
      | MNone \<Rightarrow>
          (if s \<noteq> ''/'' then
             (let s' = (if s \<noteq> [] \<and> last s = CHR ''/'' then rstrip_slash s else s @ ''/'') in
              if list_ex (\<lambda>r. route_matches r m s' \<noteq> MNone) rs then RedirectTo s' else NoRoute)
           else NoRoute))"

section \<open>The application's route table\<close>

text \<open>\<open>router = APIRouter(tags=["auth"])\<close> with \<open>@router.post("/register", ...)\<close> and
  \<open>@router.post("/login", ...)\<close>: FastAPI's routes take exactly the listed methods.\<close>

definition register_route :: route where
  "register_route = Route ''/register'' (Some [''POST'']) EpRegister"

definition login_route :: route where
  "login_route = Route ''/login'' (Some [''POST'']) EpLogin"

definition auth_routes :: "route list" where
  "auth_routes = [register_route, login_route]"

text \<open>The documentation routes of \<open>FastAPI.setup()\<close>: Starlette routes of function
  endpoints, so \<open>GET\<close> and \<open>HEAD\<close>.\<close>

definition docs_routes :: "route list" where
  "docs_routes =
     map (\<lambda>p. Route p (Some [''GET'', ''HEAD'']) (EpDocs p))
       [''/openapi.json'', ''/docs'', ''/docs/oauth2-redirect'', ''/redoc'']"

text \<open>The application's routes, \<open>static_exists\<close> being \<open>static_path.exists()\<close>.\<close>

definition app_routes :: "bool \<Rightarrow> route list" where
  "app_routes static_exists =
     docs_routes @ auth_routes @ (if static_exists then [Mount ''/static'' EpStatic] else [])
     @ [Route ''/health'' (Some [''GET'']) EpHealth]"

section \<open>Static files\<close>

text \<open>\<open>StaticFiles.get_path\<close> and \<open>lookup_path\<close> without symbolic links: the path's
  components are normalised as \<open>os.path.normpath\<close> does (\<open>.\<close> and empty components
  dropped, \<open>..\<close> removing the previous component); a path that still climbs above the
  directory is not looked up.\<close>

fun norm_parts :: "pystr list \<Rightarrow> pystr list \<Rightarrow> pystr list" where
  "norm_parts acc [] = rev acc"
| "norm_parts acc (c # cs) =
     (if c = [] \<or> c = ''.'' then norm_parts acc cs
      else if c = ''..'' then
        (case acc of a # acc' \<Rightarrow> if a = ''..'' then norm_parts (c # acc) cs else norm_parts acc' cs
                   | [] \<Rightarrow> norm_parts [c] cs)
      else norm_parts (c # acc) cs)"

text \<open>\<open>StaticFiles\<close> (with \<open>html=False\<close>) serving the directory whose regular files are
  \<open>files\<close>.\<close>

definition static_files :: "(pystr \<Rightarrow> pystr option) \<Rightarrow> pystr \<Rightarrow> pystr \<Rightarrow> exc + response" where
  "static_files files m r =
     (if m \<notin> {''GET'', ''HEAD''} then Inl (HTTPException 405 ''Method Not Allowed'' [])
      else
        (let ps = norm_parts [] (split_on CHR ''/'' r) in
         if ''..'' \<in> set ps then Inl (HTTPException 404 ''Not Found'' [])
         else (case files (str_join ''/'' ps) of
                 Some c \<Rightarrow> Inr \<lparr>status = 200, body = FileBody c, resp_headers = []\<rparr>
               | None \<Rightarrow> Inl (HTTPException 404 ''Not Found'' []))))"

section \<open>Requests\<close>

record http_request =
  http_method :: pystr
  http_path :: pystr
  http_headers :: headers
  http_body :: pystr

text \<open>\<open>email.message.Message().get_content_type()\<close> checked as FastAPI checks it:
  \<open>application/json\<close> or \<open>application/*+json\<close>.\<close>

definition json_content_type :: "pystr option \<Rightarrow> bool" where
  "json_content_type ct =
     (case ct of
        None \<Rightarrow> True
      | Some v \<Rightarrow>
          (let t = py_lower (py_strip (takeWhile (\<lambda>c. c \<noteq> CHR '';'') v)) in
           take 12 t = ''application/''
           \<and> (drop 12 t = ''json'' \<or> (let sub = drop 12 t in length sub \<ge> 5 \<and> drop (length sub - 5) sub = ''+json''))))"

text \<open>The body of a route with a body model, read before the dependencies: an empty body,
  or one that is not declared JSON, is no JSON value (\<open>None\<close>, which fails the model's
  validation as \<open>null\<close> does); a body that \<open>json.loads\<close> refuses is a
  \<open>RequestValidationError\<close>, and any other exception of the parser a 400.\<close>

definition read_body :: "nat \<Rightarrow> headers \<Rightarrow> pystr \<Rightarrow> exc + json" where
  "read_body dj hs b =
     (if b = [] \<or> \<not> json_content_type (map_of hs ''content-type'') then Inr JNull
      else (case loads dj b of
              Inr j \<Rightarrow> Inr j
            | Inl JSONDecodeError \<Rightarrow> Inl ValidationError
            | Inl _ \<Rightarrow> Inl (HTTPException 400 ''There was an error parsing the body'' [])))"

text \<open>The application below the middleware: the router, then the endpoint.  The router's
  \<open>404\<close> and \<open>405\<close> are \<open>HTTPException\<close>s, which FastAPI's handler encodes; a 405 carries
  \<open>Allow\<close>; a redirect is Starlette's 307 to the other path.\<close>

definition app_dispatch ::
  "hmac \<Rightarrow> settings \<Rightarrow> email_validator \<Rightarrow> 's hash_fn \<Rightarrow> verify_fn \<Rightarrow> 's \<Rightarrow> int \<Rightarrow> int
   \<Rightarrow> nat \<Rightarrow> bool \<Rightarrow> (pystr \<Rightarrow> pystr option) \<Rightarrow> http_request \<Rightarrow> engine \<Rightarrow> (exc + response) \<times> engine" where
  "app_dispatch hm st ev hp vp salt t1 t2 dj static_exists files rq e =
     (case router_dispatch (app_routes static_exists) (http_method rq) (http_path rq) of
        Endpoint EpRegister _ \<Rightarrow>
          (case read_body dj (http_headers rq) (http_body rq) of
             Inl x \<Rightarrow> (exc_response x, e)
           | Inr j \<Rightarrow> serve_request hm st ev hp vp salt t1 t2 (PostRegister j) e)
      | Endpoint EpLogin _ \<Rightarrow>
          (case read_body dj (http_headers rq) (http_body rq) of
             Inl x \<Rightarrow> (exc_response x, e)
           | Inr j \<Rightarrow> serve_request hm st ev hp vp salt t1 t2 (PostLogin j) e)
      | Endpoint EpHealth _ \<Rightarrow> serve_request hm st ev hp vp salt t1 t2 GetHealth e
      | Endpoint (EpDocs p) _ \<Rightarrow> (Inr \<lparr>status = 200, body = DocsPage p, resp_headers = []\<rparr>, e)
      | Endpoint EpStatic r \<Rightarrow> (encode_result (static_files files (http_method rq) r), e)
      | MethodNotAllowed ms \<Rightarrow>
          (exc_response (HTTPException 405 ''Method Not Allowed'' [(''Allow'', str_join '', '' ms)]), e)
      | RedirectTo s' \<Rightarrow> (Inr \<lparr>status = 307, body = PlainText [], resp_headers = [(''location'', s')]\<rparr>, e)
      | NoRoute \<Rightarrow> (exc_response (HTTPException 404 ''Not Found'' []), e))"

text \<open>One HTTP request to the running server: \<open>ServerErrorMiddleware\<close> around the CORS
  middleware around the application.\<close>

definition http_handle ::
  "hmac \<Rightarrow> settings \<Rightarrow> email_validator \<Rightarrow> 's hash_fn \<Rightarrow> verify_fn \<Rightarrow> 's \<Rightarrow> int \<Rightarrow> int
   \<Rightarrow> nat \<Rightarrow> bool \<Rightarrow> (pystr \<Rightarrow> pystr option) \<Rightarrow> http_request \<Rightarrow> engine \<Rightarrow> response \<times> engine" where
  "http_handle hm st ev hp vp salt t1 t2 dj static_exists files rq e =
     (case cors_call (cors_init app_cors) (http_method rq) (http_headers rq)
             (app_dispatch hm st ev hp vp salt t1 t2 dj static_exists files rq) e of
        (r, e') \<Rightarrow> (server_error r, e'))"

section \<open>Properties\<close>

lemma router_match_full:
  "router_match rs m s partial = MFull ep c \<Longrightarrow> \<exists>r \<in> set rs. route_matches r m s = MFull ep c"
  by (induction rs m s partial rule: router_match.induct) (auto split: rmatch.splits option.splits)

text \<open>Only the \<open>/register\<close> route leads to \<open>register\<close>, and only for \<open>POST\<close>.\<close>

lemma dispatch_register:
  assumes "router_dispatch (app_routes b) m s = Endpoint EpRegister c"
  shows "m = ''POST'' \<and> path_matches ''/register'' s"
proof -
  have "router_match (app_routes b) m s None = MFull EpRegister c"
    using assms by (auto simp: router_dispatch_def Let_def split: rmatch.splits if_splits)
  then obtain r where r: "r \<in> set (app_routes b)" "route_matches r m s = MFull EpRegister c"
    using router_match_full by blast
  then have "r = register_route"
    by (auto simp: app_routes_def docs_routes_def auth_routes_def register_route_def login_route_def
        split: if_splits option.splits)
  then show ?thesis using r(2) by (auto simp: register_route_def split: if_splits)
qed

lemma cors_call_state: "snd (cors_call mw m hs app e) = e \<or> snd (cors_call mw m hs app e) = snd (app e)"
  by (auto simp: cors_call_def split: option.splits prod.splits)

lemma app_route_keeps:
  "\<forall>b. req \<noteq> PostRegister b \<Longrightarrow> snd (app_route hm st ev hp vp salt t1 t2 req t) = t"
  by (cases req) (auto simp: app_route_def on_table_def split: sum.splits option.splits prod.splits)

lemma serve_request_keeps:
  "\<forall>b. req \<noteq> PostRegister b \<Longrightarrow> tables (snd (serve_request hm st ev hp vp salt t1 t2 req e)) = tables e"
  by (simp add: serve_request_tables app_route_keeps)

lemma serve_register_step:
  "tables e = Some d \<Longrightarrow>
   \<exists>d'. tables (snd (serve_request hm st ev hp vp salt t1 t2 req e)) = Some d' \<and> service_step hm st hp d d'"
  using app_route_step [of hm st ev hp vp salt t1 t2 req d] by (simp add: serve_request_tables)

text \<open>Below the middleware, only a request the router sends to \<open>register\<close> may change the
  table, and it changes it by a step of the service relation.\<close>

lemma app_dispatch_tables:
  assumes "tables e = Some d"
  shows "\<exists>d'. tables (snd (app_dispatch hm st ev hp vp salt t1 t2 dj b files rq e)) = Some d'
           \<and> service_step hm st hp d d'
           \<and> (d' \<noteq> d \<longrightarrow> http_method rq = ''POST'' \<and> path_matches ''/register'' (http_path rq))"
proof (cases "router_dispatch (app_routes b) (http_method rq) (http_path rq)")
  case (Endpoint ep c)
  show ?thesis
  proof (cases ep)
    case EpRegister
    have reg: "http_method rq = ''POST'' \<and> path_matches ''/register'' (http_path rq)"
      using dispatch_register Endpoint EpRegister by blast
    show ?thesis
    proof (cases "read_body dj (http_headers rq) (http_body rq)")
      case (Inr j)
      then show ?thesis using Endpoint EpRegister reg serve_register_step [OF assms, of hm st ev hp vp salt t1 t2 "PostRegister j"]
        by (auto simp: app_dispatch_def)
    qed (use Endpoint EpRegister assms in \<open>auto simp: app_dispatch_def intro: step_login\<close>)
  qed (use Endpoint assms in \<open>auto simp: app_dispatch_def serve_request_keeps intro: step_login split: sum.splits\<close>)
qed (use assms in \<open>auto simp: app_dispatch_def intro: step_login\<close>)

section \<open>Claims\<close>

text \<open>C35: Through the whole HTTP stack (CORS middleware, router, body reading, the
  \<open>get_db\<close> dependency, validation and the route), every request changes the table by one
  step of the service relation, and only a \<open>POST\<close> that the router sends to
  \<open>/register\<close> changes it at all: every other method and path, preflights, the
  documentation and static routes, 404, 405 and redirects leave it as it was.  The router's
  \<open>$\<close> also sends \<open>/register\<close> followed by a newline there.\<close>

theorem http_table_step:
  assumes "tables e = Some d"
  shows "\<exists>d'. tables (snd (http_handle hm st ev hp vp salt t1 t2 dj b files rq e)) = Some d'
           \<and> service_step hm st hp d d'
           \<and> (d' \<noteq> d \<longrightarrow> http_method rq = ''POST'' \<and> path_matches ''/register'' (http_path rq))"
  using cors_call_state [of "cors_init app_cors" "http_method rq" "http_headers rq"
      "app_dispatch hm st ev hp vp salt t1 t2 dj b files rq" e]
    app_dispatch_tables [OF assms, of hm st ev hp vp salt t1 t2 dj b files rq] assms
  by (auto simp: http_handle_def prod.case_eq_if intro: step_login)

end
