(* ===== verification/Password.thy ===== *)
theory Password
  imports Jose
begin

text \<open>
  \<open>app.auth.password\<close> (\<open>hash_password\<close>, \<open>verify_password\<close>) is imported by
  \<open>app/routes/auth.py\<close> and \<open>app/auth/__init__.py\<close> but is not among the sources; this theory
  models it from the spec (sections 3, 4.1 and 7).  A digest is one self-describing string
  \<open>$kdf$<cost>$<salt>$<hash>\<close>: the algorithm identifier, the cost, and the base64url of the
  salt and of the key-derivation output.  The key-derivation function is the parameter
  \<open>kdf\<close>; the salt is an argument (the random bytes of that call).  A password is truncated to
  its first 72 UTF-8 bytes, the deterministic truncation policy that spec 4.1 allows.  The
  stored and the recomputed hash are compared over every byte, whatever the bytes are
  (constant time); a digest that does not parse verifies nothing.
\<close>

type_synonym kdf = "nat \<Rightarrow> bytes \<Rightarrow> bytes \<Rightarrow> bytes"

section \<open>Digests\<close>

definition pw_bytes :: "pystr \<Rightarrow> bytes" where
  "pw_bytes p = take 72 (utf8_encode p)"

definition b64_text :: "bytes \<Rightarrow> pystr" where
  "b64_text bs = map char_of_byte (base64url_encode bs)"

definition hash_password :: "kdf \<Rightarrow> nat \<Rightarrow> bytes \<Rightarrow> pystr \<Rightarrow> pystr" where
  "hash_password kdf cost salt p =
     ''$kdf$'' @ nat_repr cost @ ''$'' @ b64_text salt @ ''$'' @ b64_text (kdf cost salt (pw_bytes p))"

definition parse_digest :: "pystr \<Rightarrow> (nat \<times> bytes \<times> bytes) option" where
  "parse_digest dg =
     (case split_on CHR ''$'' dg of
        [e, alg, c, s, h] \<Rightarrow>
          if e = [] \<and> alg = ''kdf'' \<and> c \<noteq> [] \<and> list_all is_digit c then
            (case (base64url_decode (utf8_encode s), base64url_decode (utf8_encode h)) of
               (Inr sb, Inr hb) \<Rightarrow> Some (digits_value c, sb, hb)
             | _ \<Rightarrow> None)
          else None
      | _ \<Rightarrow> None)"

section \<open>Constant-time comparison\<close>

text \<open>The loop of a constant-time comparison: the accumulator collects the differing bits of
  every pair of bytes, and the loop counts its iterations.\<close>

fun ct_acc :: "byte \<Rightarrow> bytes \<Rightarrow> bytes \<Rightarrow> byte \<times> nat" where
  "ct_acc acc (x # xs) (y # ys) = (let (r, n) = ct_acc (acc OR (x XOR y)) xs ys in (r, Suc n))"
| "ct_acc acc _ _ = (acc, 0)"

definition ct_equal :: "bytes \<Rightarrow> bytes \<Rightarrow> bool" where
  "ct_equal a b \<longleftrightarrow> length a = length b \<and> fst (ct_acc 0 a b) = 0"

definition verify_password :: "kdf \<Rightarrow> pystr \<Rightarrow> pystr \<Rightarrow> bool" where
  "verify_password kdf p dg =
     (case parse_digest dg of
        None \<Rightarrow> False
      | Some (cost, salt, h) \<Rightarrow> ct_equal (kdf cost salt (pw_bytes p)) h)"

section \<open>Properties\<close>

lemma ct_acc_steps: "snd (ct_acc acc a b) = min (length a) (length b)"
  by (induction acc a b rule: ct_acc.induct) (auto split: prod.splits)

lemma byte_xor_eq_0: "(x XOR y = (0::byte)) \<longleftrightarrow> x = y"
  by (auto simp: bit_eq_iff bit_xor_iff)

lemma ct_acc_zero:
  "length a = length b \<Longrightarrow> (fst (ct_acc acc a b) = 0) \<longleftrightarrow> acc = 0 \<and> a = b"
proof (induction acc a b rule: ct_acc.induct)
  case (1 acc x xs y ys)
  then show ?case by (auto simp: or_eq_0_iff byte_xor_eq_0 split: prod.splits)
qed auto

text \<open>The comparison decides equality, and its number of iterations depends on the lengths only.\<close>

lemma ct_equal_iff: "ct_equal a b \<longleftrightarrow> a = b"
  by (auto simp: ct_equal_def ct_acc_zero)

lemma split_on_no_sep: "c \<notin> set a \<Longrightarrow> split_on c a = [a]"
  by (induction a) auto

lemma split_on_append: "c \<notin> set a \<Longrightarrow> split_on c (a @ c # b) = a # split_on c b"
proof (induction a)
  case (Cons x a)
  then obtain y ys where "split_on c (a @ c # b) = y # ys" by simp
  with Cons show ?case by auto
qed simp

lemma b64_text_ascii: "\<forall>b \<in> set (base64url_encode bs). unat b < 128"
  using base64url_encode_ascii by blast

lemma utf8_b64_text: "utf8_encode (b64_text bs) = base64url_encode bs"
  by (simp add: b64_text_def utf8_encode_ascii_bytes b64_text_ascii)

lemma b64_text_no_dollar: "CHR ''$'' \<notin> set (b64_text bs)"
proof
  assume "CHR ''$'' \<in> set (b64_text bs)"
  then obtain b where b: "b \<in> set (base64url_encode bs)" "char_of_byte b = CHR ''$''"
    by (auto simp: b64_text_def)
  then have "b = byte_of_char CHR ''$''" by (metis byte_of_char_of_byte)
  moreover have "urlsafe_encode_translate (b64_char v) \<noteq> 36" for v
  proof -
    have "b64_code (unat v) \<noteq> 36" by (simp add: b64_code_def) presburger
    then have "unat (b64_char v) \<noteq> unat (36::byte)" by simp
    then have "b64_char v \<noteq> 36" by metis
    then show ?thesis by (auto simp: urlsafe_encode_translate_def)
  qed
  ultimately show False using b(1) by (auto simp: base64url_encode_eq byte_of_char_def)
qed

lemma nat_repr_no_dollar: "CHR ''$'' \<notin> set (nat_repr n)"
  using nat_repr_digits [of n] by (auto simp: is_digit_def)

lemma split_hash:
  "split_on CHR ''$'' (hash_password kdf cost salt p) =
     [[], ''kdf'', nat_repr cost, b64_text salt, b64_text (kdf cost salt (pw_bytes p))]"
proof -
  have "hash_password kdf cost salt p = CHR ''$'' # ''kdf'' @ CHR ''$'' # nat_repr cost @ CHR ''$''
          # b64_text salt @ CHR ''$'' # b64_text (kdf cost salt (pw_bytes p))"
    by (simp add: hash_password_def)
  then show ?thesis
    by (simp add: split_on_append split_on_no_sep nat_repr_no_dollar b64_text_no_dollar)
qed

text \<open>A digest parses back to the cost, the salt and the hash it was built from.\<close>

lemma parse_hash:
  "parse_digest (hash_password kdf cost salt p) = Some (cost, salt, kdf cost salt (pw_bytes p))"
  using nat_repr_digits [of cost] nat_repr_nonempty [of cost]
  by (simp add: parse_digest_def split_hash list_all_iff utf8_b64_text base64url_roundtrip
      digits_value_nat_repr)

lemma verify_hash: "verify_password kdf p (hash_password kdf cost salt p)"
  by (simp add: verify_password_def parse_hash ct_equal_iff)

lemma verify_hash_other:
  assumes "\<forall>c s a b. kdf c s a = kdf c s b \<longrightarrow> a = b" and "pw_bytes q \<noteq> pw_bytes p"
  shows "\<not> verify_password kdf q (hash_password kdf cost salt p)"
proof -
  have "kdf cost salt (pw_bytes q) \<noteq> kdf cost salt (pw_bytes p)" using assms by blast
  then show ?thesis by (simp add: verify_password_def parse_hash ct_equal_iff)
qed

text \<open>Digests of one password under two salts differ; both verify it (\<open>verify_hash\<close>).\<close>

lemma hash_password_salt_inj:
  assumes "hash_password kdf cost s1 p = hash_password kdf cost s2 p"
  shows "s1 = s2"
proof -
  have "parse_digest (hash_password kdf cost s1 p) = parse_digest (hash_password kdf cost s2 p)"
    using assms by (rule arg_cong)
  then show ?thesis unfolding parse_hash by simp
qed

lemma verify_unparsed: "parse_digest dg = None \<Longrightarrow> \<not> verify_password kdf p dg"
  by (simp add: verify_password_def)

end
